theory Spec2Isabelle
  imports Main "HOL-Library.Word"
begin

section \<open>Errors\<close>

text \<open>
  Modelled from the spec: the error values of the member package (\<^verbatim>\<open>ErrGetLeader\<close>,
  \<^verbatim>\<open>ErrMultipleLeader\<close>, ...) and the \<^verbatim>\<open>WithCause\<close>/\<^verbatim>\<open>WithCausef\<close> wrapping of
  \<^verbatim>\<open>pkg/coderr\<close> are declared outside the files at hand. The spec's taxonomy names the
  kinds \<^verbatim>\<open>GetLeaderFailed\<close>, \<^verbatim>\<open>MultipleLeaders\<close>, \<^verbatim>\<open>InvalidLeaderValue\<close>,
  \<^verbatim>\<open>ResetLeaderFailed\<close>, \<^verbatim>\<open>TxnPutLeaderFailed\<close>, \<^verbatim>\<open>MarshalMemberFailed\<close> and
  \<^verbatim>\<open>KVGetFailed\<close>, and says that store-call errors are wrapped with their originating
  cause and a typed kind. The constructors carry the names the source uses for them.
\<close>

datatype CodeErr =
    ErrGetLeader
  | ErrMultipleLeader
  | ErrInvalidLeaderValue
  | ErrResetLeader
  | ErrTxnPutLeader
  | ErrMarshalMember
  | ErrEtcdKVGet

text \<open>
  A Go \<^verbatim>\<open>error\<close> is either an error of a collaborator (the store client, the lease, the
  protobuf library), known here by its message only, or one of the package's coded
  errors, with or without a cause.
\<close>

datatype error =
    GoError string
  | CodeError CodeErr "error option"

definition WithCause :: "CodeErr \<Rightarrow> error \<Rightarrow> error" where
  "WithCause k cause = CodeError k (Some cause)"

definition WithCausef :: "CodeErr \<Rightarrow> string \<Rightarrow> error" where
  "WithCausef k msg = CodeError k (Some (GoError msg))"

section \<open>Data of the member package\<close>

text \<open>
  \<^verbatim>\<open>mvccpb.KeyValue\<close>, the pairs of a read's reply. The revisions and the lease are
  \<^verbatim>\<open>int64\<close>; the code only copies them and compares them with zero.
\<close>

record KeyValue =
  Key :: string
  CreateRevision :: int
  ModRevision :: int
  Version :: int
  Value :: string
  Lease :: int

record GetResponse =
  Kvs :: "KeyValue list"

record DeleteResponse =
  Deleted :: int

text \<open>\<^verbatim>\<open>metapb.Member\<close>, the identity written under the leader key.\<close>

record metapb_Member =
  pb_Name :: string
  pb_Id :: "64 word"

text \<open>
  The \<^verbatim>\<open>Member\<close> struct. Its two interface fields, \<^verbatim>\<open>clusterKV\<close> and
  \<^verbatim>\<open>etcdLeaderGetter\<close>, are capabilities of the environment: each operation below takes
  the replies of the calls it makes as arguments.
\<close>

record Member =
  ID :: "64 word"
  Name :: string
  rootPath :: string
  leaderKey :: string
  leader :: "metapb_Member option"
  rpcTimeout :: int

definition formatLeaderKey :: "string \<Rightarrow> string" where
  "formatLeaderKey root = root @ ''/members/leader''"

definition NewMember :: "string \<Rightarrow> 64 word \<Rightarrow> string \<Rightarrow> int \<Rightarrow> Member" where
  "NewMember root mid nm timeout =
     \<lparr>ID = mid, Name = nm, rootPath = root, leaderKey = formatLeaderKey root,
      leader = None, rpcTimeout = timeout\<rparr>"

record GetLeaderResp =
  Leader :: "metapb_Member option"
  Revision :: int

section \<open>GetLeader and ResetLeader\<close>

text \<open>
  \<^verbatim>\<open>GetLeader\<close>. \<open>kvGet\<close> is \<^verbatim>\<open>m.clusterKV.Get\<close> under the call's timeout: the reply
  to a read of a key, an error (a deadline included) or a response. \<open>unmarshal\<close> is
  \<^verbatim>\<open>proto.Unmarshal\<close> into a fresh \<^verbatim>\<open>metapb.Member\<close>. The checks are in the order of the
  source: more than one pair, then none, then the single pair.
\<close>

definition GetLeader ::
  "(string \<Rightarrow> error + metapb_Member) \<Rightarrow> (string \<Rightarrow> error + GetResponse) \<Rightarrow> Member
     \<Rightarrow> error + GetLeaderResp" where
  "GetLeader unmarshal kvGet m =
     (case kvGet (leaderKey m) of
        Inl err \<Rightarrow> Inl (WithCause ErrGetLeader err)
      | Inr resp \<Rightarrow>
          if length (Kvs resp) > 1 then Inl (CodeError ErrMultipleLeader None)
          else if length (Kvs resp) = 0 then Inr \<lparr>Leader = None, Revision = 0\<rparr>
          else
            (let leaderKv = Kvs resp ! 0 in
             case unmarshal (Value leaderKv) of
               Inl err \<Rightarrow> Inl (WithCause ErrInvalidLeaderValue err)
             | Inr ld \<Rightarrow> Inr \<lparr>Leader = Some ld, Revision = ModRevision leaderKv\<rparr>))"

text \<open>
  \<^verbatim>\<open>ResetLeader\<close>. \<open>kvDelete\<close> is \<^verbatim>\<open>m.clusterKV.Delete\<close> under the call's timeout.
  The result is the returned error, \<open>None\<close> for \<^verbatim>\<open>nil\<close>.
\<close>

definition ResetLeader :: "(string \<Rightarrow> error + DeleteResponse) \<Rightarrow> Member \<Rightarrow> error option" where
  "ResetLeader kvDelete m =
     (case kvDelete (leaderKey m) of
        Inl err \<Rightarrow> Some (WithCause ErrResetLeader err)
      | Inr _ \<Rightarrow> None)"

section \<open>CampaignAndKeepLeader\<close>

text \<open>
  \<^verbatim>\<open>Marshal\<close>. \<open>protoMarshal\<close> is \<^verbatim>\<open>proto.Marshal\<close> of the protobuf library.
\<close>

definition Marshal :: "(metapb_Member \<Rightarrow> error + string) \<Rightarrow> Member \<Rightarrow> error + string" where
  "Marshal protoMarshal m =
     (let memPb = \<lparr>pb_Name = Name m, pb_Id = ID m\<rparr> in
      case protoMarshal memPb of
        Inl err \<Rightarrow> Inl (WithCause ErrMarshalMember err)
      | Inr bs \<Rightarrow> Inr bs)"

text \<open>
  The requests of the store client that the campaign builds: a comparison
  (\<^verbatim>\<open>clientv3.Compare(clientv3.CreateRevision(key), "=", 0)\<close>), a put under a lease
  (\<^verbatim>\<open>clientv3.OpPut(key, val, clientv3.WithLease(id))\<close>) and the transaction
  \<^verbatim>\<open>Txn(ctx).If(...).Then(...).Commit()\<close>.
\<close>

datatype CmpTarget = CmpCreateRevision | CmpModRevision | CmpVersion

record Cmp =
  cmpKey :: string
  cmpTarget :: CmpTarget
  cmpOp :: string
  cmpValue :: int

datatype Op = OpPut string string int

record TxnRequest =
  txnIf :: "Cmp list"
  txnThen :: "Op list"
  txnElse :: "Op list"

record TxnResponse =
  Succeeded :: bool

text \<open>
  What a run of \<^verbatim>\<open>CampaignAndKeepLeader\<close> or of \<^verbatim>\<open>WaitForLeaderChange\<close> does to its
  collaborators, in order: the calls on the lease handle, the transaction sent to the
  store, the start of the keep-alive goroutine, the watches opened on a key from a
  revision, the close of the watcher and the log lines.
\<close>

datatype event =
    LeaseGrant int
  | KvTxn TxnRequest
  | LeaseClose int
  | GoKeepAlive int
  | WatchOpen string int
  | WatcherClose
  | LogInfo string
  | LogWarn string
  | LogError string "error option"

text \<open>
  The call has returned an error value (\<open>None\<close> is \<^verbatim>\<open>nil\<close>), or it is still inside
  its monitoring loop when the observed schedule ends.
\<close>

datatype result = Return "error option" | Blocked

text \<open>
  One wake-up of the monitoring loop's \<^verbatim>\<open>select\<close>, as the environment presents it:
  whether \<^verbatim>\<open>leaderCheckTicker.C\<close> holds a tick, what \<^verbatim>\<open>newLease.IsLeader()\<close> and
  \<^verbatim>\<open>m.etcdLeaderGetter.GetLeader()\<close> answer, whether the caller's context is canceled,
  whether \<^verbatim>\<open>m.rpcTimeout\<close> has elapsed since the \<^verbatim>\<open>context.WithTimeout\<close> of the
  campaign, and which case \<^verbatim>\<open>select\<close> takes when both are ready.
\<close>

record world =
  tickerFired :: bool
  leaseIsLeader :: bool
  etcdLeader :: "64 word"
  callerDone :: bool
  deadlinePassed :: bool
  preferTick :: bool

text \<open>
  The \<^verbatim>\<open>ctx\<close> of the loop is the one bound by
  \<^verbatim>\<open>ctx, cancel := context.WithTimeout(ctx, m.rpcTimeout)\<close> before the transaction: its
  \<^verbatim>\<open>Done\<close> channel is closed when the caller's context is canceled or when the
  deadline passes (\<^verbatim>\<open>cancel\<close> itself is deferred to the return).
\<close>

definition ctxDone :: "world \<Rightarrow> bool" where
  "ctxDone w = (callerDone w \<or> deadlinePassed w)"

text \<open>
  The monitoring loop \<^verbatim>\<open>for { select { ... } }\<close>. A wake-up with neither case ready
  leaves the loop blocked. The result is the returned error and the lines logged.
\<close>

fun keepLeaderLoop :: "Member \<Rightarrow> world list \<Rightarrow> (error option \<times> event list) option" where
  "keepLeaderLoop m [] = None"
| "keepLeaderLoop m (w # ws) =
     (if tickerFired w \<and> (\<not> ctxDone w \<or> preferTick w) then
        (if \<not> leaseIsLeader w then
           Some (None, [LogInfo ''no longer a leader because lease has expired''])
         else if etcdLeader w \<noteq> ID m then
           Some (None, [LogInfo ''etcd leader changed and should re-assign the leadership''])
         else keepLeaderLoop m ws)
      else if ctxDone w then Some (None, [LogInfo ''server is closed''])
      else keepLeaderLoop m ws)"

text \<open>The transaction of the campaign, lines 141 to 146 of the source.\<close>

definition campaignTxn :: "string \<Rightarrow> string \<Rightarrow> int \<Rightarrow> TxnRequest" where
  "campaignTxn key leaderVal leaseID =
     \<lparr>txnIf = [\<lparr>cmpKey = key, cmpTarget = CmpCreateRevision, cmpOp = ''='', cmpValue = 0\<rparr>],
      txnThen = [OpPut key leaderVal leaseID],
      txnElse = []\<rparr>"

text \<open>
  The two failure branches after the transaction close the lease in the same way:
  \<^verbatim>\<open>newLease.Close(ctx)\<close>, and a log line when that fails.
\<close>

definition closeAfterTxn :: "(int \<Rightarrow> error option) \<Rightarrow> int \<Rightarrow> event list" where
  "closeAfterTxn leaseClose leaseID =
     LeaseClose leaseID #
     (case leaseClose leaseID of
        Some closeErr \<Rightarrow> [LogError ''close lease failed after txn put leader'' (Some closeErr)]
      | None \<Rightarrow> [])"

text \<open>
  \<^verbatim>\<open>CampaignAndKeepLeader\<close>. The lease handle (\<^verbatim>\<open>newLease\<close>, \<^verbatim>\<open>Grant\<close>, \<^verbatim>\<open>Close\<close>,
  \<^verbatim>\<open>KeepAlive\<close>, \<^verbatim>\<open>IsLeader\<close>) and the store are collaborators, taken as arguments:
  \<open>leaseGrant\<close> answers \<^verbatim>\<open>newLease.Grant(ctx)\<close> with an error or the ID that
  \<^verbatim>\<open>newLease.ID\<close> then holds, \<open>leaseClose\<close> answers \<^verbatim>\<open>newLease.Close(ctx)\<close> with an error
  or \<^verbatim>\<open>nil\<close>, and \<open>kvTxn\<close> answers the committed transaction of \<^verbatim>\<open>m.clusterKV\<close>, all
  under the context of the call. The argument of \<^verbatim>\<open>WithCausef\<close> is the format string;
  the rendering of the response is left out.
\<close>

definition CampaignAndKeepLeader ::
  "(metapb_Member \<Rightarrow> error + string) \<Rightarrow> (int \<Rightarrow> error + int) \<Rightarrow>
   (TxnRequest \<Rightarrow> error + TxnResponse) \<Rightarrow> (int \<Rightarrow> error option) \<Rightarrow>
   Member \<Rightarrow> int \<Rightarrow> world list \<Rightarrow> result \<times> event list" where
  "CampaignAndKeepLeader protoMarshal leaseGrant kvTxn leaseClose m leaseTTLSec worlds =
     (case Marshal protoMarshal m of
        Inl err \<Rightarrow> (Return (Some err), [])
      | Inr leaderVal \<Rightarrow>
          (case leaseGrant leaseTTLSec of
             Inl err \<Rightarrow> (Return (Some err), [LeaseGrant leaseTTLSec])
           | Inr leaseID \<Rightarrow>
               (let txn = campaignTxn (leaderKey m) leaderVal leaseID;
                    sent = [LeaseGrant leaseTTLSec, KvTxn txn]
                in case kvTxn txn of
                     Inl err \<Rightarrow>
                       (Return (Some (WithCause ErrTxnPutLeader err)),
                        sent @ closeAfterTxn leaseClose leaseID)
                   | Inr resp \<Rightarrow>
                       if \<not> Succeeded resp then
                         (Return (Some (WithCausef ErrTxnPutLeader
                                          ''txn put leader failed, resp:%v'')),
                          sent @ closeAfterTxn leaseClose leaseID)
                       else
                         (let leading = sent @ [LogInfo ''succeed to set leader'',
                                                GoKeepAlive leaseID]
                          in case keepLeaderLoop m worlds of
                               None \<Rightarrow> (Blocked, leading)
                             | Some (err, logged) \<Rightarrow> (Return err, leading @ logged)))))"

text \<open>The transactions among the events of a run: the writes it sent to the store.\<close>

fun kvRequests :: "event list \<Rightarrow> TxnRequest list" where
  "kvRequests [] = []"
| "kvRequests (KvTxn t # es) = t # kvRequests es"
| "kvRequests (_ # es) = kvRequests es"

fun leaseCloses :: "event list \<Rightarrow> int list" where
  "leaseCloses [] = []"
| "leaseCloses (LeaseClose i # es) = i # leaseCloses es"
| "leaseCloses (_ # es) = leaseCloses es"

section \<open>WaitForLeaderChange\<close>

text \<open>
  \<^verbatim>\<open>clientv3.WatchResponse\<close> with the fields the loop reads, and \<^verbatim>\<open>mvccpb.Event\<close>.
\<close>

datatype EventType = PUT | DELETE

record WatchEvent =
  evType :: EventType
  evKv :: KeyValue

record WatchResponse =
  CompactRevision :: int
  Canceled :: bool
  Events :: "WatchEvent list"

text \<open>
  What one call of \<^verbatim>\<open>watcher.Watch\<close> gives the loop: the responses its channel
  delivers, whether the channel is closed after them (a channel that is not leaves
  \<^verbatim>\<open>range wch\<close> blocked), and whether the caller's context is canceled when the
  \<^verbatim>\<open>select\<close> after the inner loop looks at it. The \<^verbatim>\<open>ctx\<close> there is the
  \<^verbatim>\<open>context.WithCancel\<close> child of the caller's, whose \<^verbatim>\<open>cancel\<close> is deferred.
\<close>

record watchSession =
  delivered :: "WatchResponse list"
  closes :: bool
  callerDoneAfter :: bool

text \<open>
  The inner loop \<^verbatim>\<open>for resp := range wch\<close>: it breaks with the compact revision,
  returns from the function with a log line, or runs to the end of what the channel
  delivered. The checks are in the order of the source.
\<close>

datatype drained = Compacted int | Returns "event list" | Exhausted

fun drainChannel :: "WatchResponse list \<Rightarrow> drained" where
  "drainChannel [] = Exhausted"
| "drainChannel (resp # rest) =
     (if CompactRevision resp \<noteq> 0 then Compacted (CompactRevision resp)
      else if Canceled resp then Returns [LogError ''watcher is cancelled'' None]
      else if list_ex (\<lambda>ev. evType ev = DELETE) (Events resp) then
        Returns [LogInfo ''current leader is deleted'']
      else drainChannel rest)"

text \<open>
  The function returns nothing: a run has returned, or it is still waiting when the
  observed sessions end.
\<close>

datatype waited = Returned | Waiting

text \<open>The outer loop \<^verbatim>\<open>for { wch := watcher.Watch(...); ...; select {...} }\<close>.\<close>

fun watchLoop :: "Member \<Rightarrow> int \<Rightarrow> watchSession list \<Rightarrow> waited \<times> event list" where
  "watchLoop m revision [] = (Waiting, [])"
| "watchLoop m revision (s # ss) =
     (case drainChannel (delivered s) of
        Returns logged \<Rightarrow> (Returned, WatchOpen (leaderKey m) revision # logged)
      | Compacted compactRevision \<Rightarrow>
          (let warned = [WatchOpen (leaderKey m) revision,
                         LogWarn ''required revision has been compacted, use the compact revision'']
           in if callerDoneAfter s then (Returned, warned)
              else (case watchLoop m compactRevision ss of (r, evs) \<Rightarrow> (r, warned @ evs)))
      | Exhausted \<Rightarrow>
          if \<not> closes s then (Waiting, [WatchOpen (leaderKey m) revision])
          else if callerDoneAfter s then (Returned, [WatchOpen (leaderKey m) revision])
          else (case watchLoop m revision ss of
                  (r, evs) \<Rightarrow> (r, WatchOpen (leaderKey m) revision # evs)))"

text \<open>
  \<^verbatim>\<open>WaitForLeaderChange\<close>: the loop, and on return the deferred \<^verbatim>\<open>watcher.Close()\<close>,
  whose failure is logged. \<open>watcherClose\<close> is the answer of \<^verbatim>\<open>watcher.Close()\<close>.
\<close>

definition WaitForLeaderChange ::
  "error option \<Rightarrow> Member \<Rightarrow> int \<Rightarrow> watchSession list \<Rightarrow> waited \<times> event list" where
  "WaitForLeaderChange watcherClose m revision sessions =
     (case watchLoop m revision sessions of
        (Waiting, evs) \<Rightarrow> (Waiting, evs)
      | (Returned, evs) \<Rightarrow>
          (Returned,
           evs @ WatcherClose #
           (case watcherClose of
              Some err \<Rightarrow> [LogError ''close watcher failed'' (Some err)]
            | None \<Rightarrow> [])))"

text \<open>
  A response that lets the inner loop go on: no compaction, no cancellation, no delete
  event.
\<close>

definition quiet :: "WatchResponse \<Rightarrow> bool" where
  "quiet resp =
     (CompactRevision resp = 0 \<and> \<not> Canceled resp
      \<and> \<not> list_ex (\<lambda>ev. evType ev = DELETE) (Events resp))"

section \<open>The coordination store's transaction\<close>

text \<open>
  Modelled from the spec: the coordination store is an external collaborator, given as
  \<^verbatim>\<open>Txn(ctx).If(condition).Then(ops).Commit() \<rightarrow> {succeeded: bool}\<close>, a single atomic
  conditional write, where a key that does not exist has creation revision zero, and
  the store serializes transactions. A store is its current revision and its keys. A
  comparison on an absent key reads a zero \<^verbatim>\<open>KeyValue\<close>; a put creates the key at the
  transaction's revision or updates it, keeping its creation revision.
\<close>

record etcd =
  revision :: int
  contents :: "string \<Rightarrow> KeyValue option"

definition etcd_compare :: "etcd \<Rightarrow> Cmp \<Rightarrow> bool" where
  "etcd_compare st c =
     (let kv = (case contents st (cmpKey c) of
                  None \<Rightarrow> \<lparr>Key = [], CreateRevision = 0, ModRevision = 0, Version = 0,
                            Value = [], Lease = 0\<rparr>
                | Some kv \<Rightarrow> kv);
          actual = (case cmpTarget c of
                      CmpCreateRevision \<Rightarrow> CreateRevision kv
                    | CmpModRevision \<Rightarrow> ModRevision kv
                    | CmpVersion \<Rightarrow> Version kv)
      in if cmpOp c = ''='' then actual = cmpValue c
         else if cmpOp c = ''!='' then actual \<noteq> cmpValue c
         else if cmpOp c = ''>'' then actual > cmpValue c
         else if cmpOp c = ''<'' then actual < cmpValue c
         else False)"

fun etcd_apply :: "int \<Rightarrow> (string \<Rightarrow> KeyValue option) \<Rightarrow> Op \<Rightarrow> (string \<Rightarrow> KeyValue option)" where
  "etcd_apply newRev c (OpPut key val lease) =
     c(key \<mapsto>
        (case c key of
           None \<Rightarrow> \<lparr>Key = key, CreateRevision = newRev, ModRevision = newRev, Version = 1,
                     Value = val, Lease = lease\<rparr>
         | Some kv \<Rightarrow> kv\<lparr>ModRevision := newRev, Version := Version kv + 1, Value := val,
                         Lease := lease\<rparr>))"

definition etcd_txn :: "etcd \<Rightarrow> TxnRequest \<Rightarrow> TxnResponse \<times> etcd" where
  "etcd_txn st req =
     (let ok = list_all (etcd_compare st) (txnIf req);
          ops = (if ok then txnThen req else txnElse req);
          newRev = revision st + 1
      in (\<lparr>Succeeded = ok\<rparr>,
          if ops = [] then st
          else \<lparr>revision = newRev, contents = foldl (etcd_apply newRev) (contents st) ops\<rparr>))"

text \<open>Transactions committed one after the other, as the store serializes them.\<close>

fun etcd_serial :: "etcd \<Rightarrow> TxnRequest list \<Rightarrow> TxnResponse list" where
  "etcd_serial st [] = []"
| "etcd_serial st (req # reqs) =
     (case etcd_txn st req of (resp, st') \<Rightarrow> resp # etcd_serial st' reqs)"

text \<open>
  Revisions of a store are positive: its revision is not negative, and the key, when
  it exists, was created at a revision other than zero.
\<close>

definition etcd_key_ok :: "etcd \<Rightarrow> string \<Rightarrow> bool" where
  "etcd_key_ok st key =
     (0 \<le> revision st \<and>
      (case contents st key of None \<Rightarrow> True | Some kv \<Rightarrow> CreateRevision kv \<noteq> 0))"

text \<open>The racing campaigns for one leader key: each a value and a lease of its own.\<close>

definition campaigns :: "string \<Rightarrow> (string \<times> int) list \<Rightarrow> TxnRequest list" where
  "campaigns key cs = map (\<lambda>(leaderVal, leaseID). campaignTxn key leaderVal leaseID) cs"

definition emptyStore :: etcd where
  "emptyStore = \<lparr>revision = 1, contents = (\<lambda>k. None)\<rparr>"

section \<open>The KV storage: LoadRange\<close>












section \<open>The leader record's codec\<close>

text \<open>
  Modelled from the spec: the codec of the leader record is the protobuf library
  (\<^verbatim>\<open>proto.Marshal\<close>, \<^verbatim>\<open>proto.Unmarshal\<close>) applied to \<^verbatim>\<open>metapb.Member\<close>, both declared
  outside the files at hand. The spec gives the record as the identity of a member, id
  and name, serialized to and from the value stored under the leader key. What follows
  is the protobuf wire format of a proto3 message with a string field and a uint64
  field: base-128 varints, tags made of a field number and a wire type, a
  length-delimited string, fields with the zero value left out, fields written in the
  order of their numbers. The two field numbers are parameters. Bytes are \<open>char\<close>s.
\<close>

text \<open>\<^verbatim>\<open>protowire.AppendVarint\<close>: seven bits a byte, low bits first.\<close>

fun appendVarint :: "nat \<Rightarrow> string" where
  "appendVarint v =
     (if v < 128 then [char_of v] else char_of (128 + v mod 128) # appendVarint (v div 128))"

declare appendVarint.simps [simp del]

text \<open>
  \<^verbatim>\<open>protowire.ConsumeVarint\<close>, from the \<open>i\<close>-th byte of the varint on: the value and the
  bytes left over, or nothing when the bytes end inside the varint or the value does not
  fit 64 bits (an eleventh byte, or a tenth byte above 1).
\<close>

fun consumeVarintFrom :: "nat \<Rightarrow> string \<Rightarrow> (nat \<times> string) option" where
  "consumeVarintFrom i [] = None"
| "consumeVarintFrom i (c # cs) =
     (let y = (of_char c :: nat) in
      if y < 128 then (if i = 9 \<and> y > 1 then None else Some (y, cs))
      else if i \<ge> 9 then None
      else (case consumeVarintFrom (Suc i) cs of
              None \<Rightarrow> None
            | Some (v, rest) \<Rightarrow> Some (y - 128 + 128 * v, rest)))"

definition consumeVarint :: "string \<Rightarrow> (nat \<times> string) option" where
  "consumeVarint b = consumeVarintFrom 0 b"

text \<open>
  \<^verbatim>\<open>protowire.ConsumeBytes\<close>, \<^verbatim>\<open>ConsumeFixed32\<close>/\<^verbatim>\<open>ConsumeFixed64\<close> and
  \<^verbatim>\<open>ConsumeTag\<close>; the scalar cases of \<^verbatim>\<open>ConsumeFieldValue\<close> by wire type (0 varint,
  1 fixed64, 2 bytes, 5 fixed32).
\<close>

definition consumeBytes :: "string \<Rightarrow> (string \<times> string) option" where
  "consumeBytes b =
     (case consumeVarint b of
        None \<Rightarrow> None
      | Some (m, rest) \<Rightarrow> if m > length rest then None else Some (take m rest, drop m rest))"

definition consumeFixed :: "nat \<Rightarrow> string \<Rightarrow> string option" where
  "consumeFixed k b = (if length b < k then None else Some (drop k b))"

definition consumeTag :: "string \<Rightarrow> (nat \<times> nat \<times> string) option" where
  "consumeTag b =
     (case consumeVarint b of
        None \<Rightarrow> None
      | Some (v, rest) \<Rightarrow>
          if v div 8 > 2147483647 \<or> v div 8 < 1 then None
          else Some (v div 8, v mod 8, rest))"

definition skipScalar :: "nat \<Rightarrow> string \<Rightarrow> string option" where
  "skipScalar typ b =
     (if typ = 0 then map_option snd (consumeVarint b)
      else if typ = 1 then consumeFixed 8 b
      else if typ = 2 then map_option snd (consumeBytes b)
      else if typ = 5 then consumeFixed 4 b
      else None)"

text \<open>Each of them consumes at least what termination of the loops below needs.\<close>

lemma consumeVarintFrom_shorter:
  "consumeVarintFrom i b = Some (v, rest) \<Longrightarrow> length rest < length b"
proof (induction b arbitrary: i v)
  case Nil
  then show ?case by simp
next
  case (Cons c cs)
  show ?case
  proof (cases "(of_char c :: nat) < 128")
    case True
    with Cons.prems have "rest = cs" by (simp add: Let_def split: if_splits)
    then show ?thesis by simp
  next
    case False
    with Cons.prems obtain v' where "consumeVarintFrom (Suc i) cs = Some (v', rest)"
      by (auto simp add: Let_def split: if_splits option.splits)
    then have "length rest < length cs" by (rule Cons.IH)
    then show ?thesis by simp
  qed
qed

lemma consumeVarint_shorter:
  "consumeVarint b = Some (v, rest) \<Longrightarrow> length rest < length b"
  unfolding consumeVarint_def by (rule consumeVarintFrom_shorter)

lemma consumeTag_shorter:
  "consumeTag b = Some (num, typ, rest) \<Longrightarrow> length rest < length b"
  by (auto simp add: consumeTag_def split: option.splits if_splits dest: consumeVarint_shorter)

lemma consumeBytes_shorter:
  assumes "consumeBytes b = Some (v, rest)"
  shows "length rest < length b"
proof -
  from assms obtain m r where c: "consumeVarint b = Some (m, r)" and rest: "rest = drop m r"
    by (auto simp add: consumeBytes_def split: option.splits if_splits)
  from c have "length r < length b" by (rule consumeVarint_shorter)
  with rest show ?thesis by simp
qed

lemma skipScalar_shorter:
  "skipScalar typ b = Some rest \<Longrightarrow> length rest \<le> length b"
  by (fastforce simp add: skipScalar_def consumeFixed_def split: if_splits
        dest: consumeVarint_shorter consumeBytes_shorter)

text \<open>
  The group case of \<^verbatim>\<open>ConsumeFieldValue\<close> (wire type 3), with the open groups on a
  stack: fields are skipped up to the end-group tag (wire type 4) of the same number;
  groups nest up to the library's recursion limit.
\<close>

function skipGroup :: "nat list \<Rightarrow> string \<Rightarrow> string option" where
  "skipGroup [] b = Some b"
| "skipGroup (num # outer) b =
     (case consumeTag b of
        None \<Rightarrow> None
      | Some (num2, typ2, rest) \<Rightarrow>
          if typ2 = 4 then (if num \<noteq> num2 then None else skipGroup outer rest)
          else if typ2 = 3 then
            (if length outer \<ge> 10000 then None else skipGroup (num2 # num # outer) rest)
          else (case skipScalar typ2 rest of
                  None \<Rightarrow> None
                | Some rest' \<Rightarrow> skipGroup (num # outer) rest'))"
  by pat_completeness auto
termination
proof (relation "measure (\<lambda>(stack, b). 2 * length b + (if stack = [] then 0 else 1))")
  show "wf (measure (\<lambda>(stack, b). 2 * length b + (if stack = [] then 0 else 1)))" by simp
next
  fix num outer b x2 num2 y typ2 rest
  assume "consumeTag b = Some x2" "(num2, y) = x2" "(typ2, rest) = y"
  then have "consumeTag b = Some (num2, typ2, rest)" by simp
  then have "length rest < length b" by (rule consumeTag_shorter)
  then show "((outer, rest), num # outer, b)
       \<in> measure (\<lambda>(stack, b). 2 * length b + (if stack = [] then 0 else 1))"
    by simp
next
  fix num outer b x2 num2 y typ2 rest
  assume "consumeTag b = Some x2" "(num2, y) = x2" "(typ2, rest) = y"
  then have "consumeTag b = Some (num2, typ2, rest)" by simp
  then have "length rest < length b" by (rule consumeTag_shorter)
  then show "((num2 # num # outer, rest), num # outer, b)
       \<in> measure (\<lambda>(stack, b). 2 * length b + (if stack = [] then 0 else 1))"
    by simp
next
  fix num outer b x2 num2 y typ2 rest rest'
  assume "consumeTag b = Some x2" "(num2, y) = x2" "(typ2, rest) = y"
    and s: "skipScalar typ2 rest = Some rest'"
  then have "consumeTag b = Some (num2, typ2, rest)" by simp
  then have "length rest < length b" by (rule consumeTag_shorter)
  moreover from s have "length rest' \<le> length rest" by (rule skipScalar_shorter)
  ultimately show "((num # outer, rest'), num # outer, b)
       \<in> measure (\<lambda>(stack, b). 2 * length b + (if stack = [] then 0 else 1))"
    by simp
qed

text \<open>\<^verbatim>\<open>utf8.Valid\<close>: the well-formed byte sequences of UTF-8.\<close>

definition inBytes :: "nat \<Rightarrow> nat \<Rightarrow> nat \<Rightarrow> bool" where
  "inBytes lo hi y = (lo \<le> y \<and> y \<le> hi)"

fun validRunes :: "nat list \<Rightarrow> bool" where
  "validRunes [] = True"
| "validRunes (a # bs) =
     (if a < 128 then validRunes bs
      else if inBytes 194 223 a then
        (case bs of
           b # rest \<Rightarrow> inBytes 128 191 b \<and> validRunes rest
         | _ \<Rightarrow> False)
      else if inBytes 224 239 a then
        (case bs of
           b # c # rest \<Rightarrow>
             inBytes (if a = 224 then 160 else 128) (if a = 237 then 159 else 191) b
             \<and> inBytes 128 191 c \<and> validRunes rest
         | _ \<Rightarrow> False)
      else if inBytes 240 244 a then
        (case bs of
           b # c # d # rest \<Rightarrow>
             inBytes (if a = 240 then 144 else 128) (if a = 244 then 143 else 191) b
             \<and> inBytes 128 191 c \<and> inBytes 128 191 d \<and> validRunes rest
         | _ \<Rightarrow> False)
      else False)"

definition utf8Valid :: "string \<Rightarrow> bool" where
  "utf8Valid s = validRunes (map of_char s)"

text \<open>The field numbers of \<^verbatim>\<open>name\<close> and \<^verbatim>\<open>id\<close> in the message.\<close>

record pbSchema =
  nameField :: nat
  idField :: nat

definition errDecode :: error where
  "errDecode = GoError ''proto: cannot parse invalid wire-format data''"

definition errInvalidUTF8 :: error where
  "errInvalidUTF8 = GoError ''proto: string field contains invalid UTF-8''"

definition consumeFieldValue :: "nat \<Rightarrow> nat \<Rightarrow> string \<Rightarrow> string option" where
  "consumeFieldValue num typ b =
     (if typ = 3 then skipGroup [num] b
      else skipScalar typ b)"

text \<open>
  The decoding loop of \<^verbatim>\<open>proto.Unmarshal\<close>: a tag, then the field. The name is a
  length-delimited string that must be valid UTF-8, the id a varint; the last
  occurrence wins. Any other field, and either field under another wire type, is
  skipped as an unknown field. A field number outside 1 to 536870911, an end-group tag
  and a malformed value are decoding errors.
\<close>

function unmarshalFields :: "pbSchema \<Rightarrow> string \<Rightarrow> metapb_Member \<Rightarrow> error + metapb_Member" where
  "unmarshalFields sch b msg =
     (if b = [] then Inr msg
      else
        (case consumeVarint b of
           None \<Rightarrow> Inl errDecode
         | Some (tag, rest) \<Rightarrow>
             if tag div 8 < 1 \<or> tag div 8 > 536870911 then Inl errDecode
             else if tag mod 8 = 4 then Inl errDecode
             else if tag div 8 = nameField sch \<and> tag mod 8 = 2 then
               (case consumeBytes rest of
                  None \<Rightarrow> Inl errDecode
                | Some (v, rest') \<Rightarrow>
                    if \<not> utf8Valid v then Inl errInvalidUTF8
                    else unmarshalFields sch rest' (msg\<lparr>pb_Name := v\<rparr>))
             else if tag div 8 = idField sch \<and> tag mod 8 = 0 then
               (case consumeVarint rest of
                  None \<Rightarrow> Inl errDecode
                | Some (v, rest') \<Rightarrow> unmarshalFields sch rest' (msg\<lparr>pb_Id := of_nat v\<rparr>))
             else
               (case consumeFieldValue (tag div 8) (tag mod 8) rest of
                  None \<Rightarrow> Inl errDecode
                | Some rest' \<Rightarrow> unmarshalFields sch rest' msg)))"
  by pat_completeness auto

lemma skipGroup_shorter:
  "skipGroup stack b = Some rest \<Longrightarrow> length rest \<le> length b"
proof (induction stack b rule: skipGroup.induct)
  case (1 b)
  then show ?case by simp
next
  case (2 num outer b)
  from "2.prems" obtain num2 typ2 r where t: "consumeTag b = Some (num2, typ2, r)"
    by (auto split: option.splits)
  then have lr: "length r < length b" by (rule consumeTag_shorter)
  show ?case
  proof (cases "typ2 = 4")
    case True
    with "2.prems" t have "skipGroup outer r = Some rest" and "num = num2"
      by (auto split: if_splits)
    with "2.IH"(1) [OF t refl refl True] have "length rest \<le> length r" by simp
    with lr show ?thesis by simp
  next
    case False
    note n4 = False
    show ?thesis
    proof (cases "typ2 = 3")
      case True
      with "2.prems" t n4 have s: "skipGroup (num2 # num # outer) r = Some rest"
        and d: "\<not> 10000 \<le> length outer"
        by (auto split: if_splits)
      from "2.IH"(2) [OF t refl refl n4 True d s] have "length rest \<le> length r" .
      with lr show ?thesis by simp
    next
      case False
      with "2.prems" t n4 obtain r' where sc: "skipScalar typ2 r = Some r'"
        and s: "skipGroup (num # outer) r' = Some rest"
        by (auto split: if_splits option.splits)
      from "2.IH"(3) [OF t refl refl n4 False sc s] have "length rest \<le> length r'" .
      moreover from sc have "length r' \<le> length r" by (rule skipScalar_shorter)
      ultimately show ?thesis using lr by simp
    qed
  qed
qed

lemma consumeFieldValue_shorter:
  assumes "consumeFieldValue num typ b = Some rest"
  shows "length rest \<le> length b"
proof (cases "typ = 3")
  case True
  with assms have "skipGroup [num] b = Some rest"
    unfolding consumeFieldValue_def by (simp del: skipGroup.simps)
  then show ?thesis by (rule skipGroup_shorter)
next
  case False
  with assms have "skipScalar typ b = Some rest"
    unfolding consumeFieldValue_def by (simp del: skipGroup.simps)
  then show ?thesis by (rule skipScalar_shorter)
qed

termination unmarshalFields
proof (relation "measure (\<lambda>(sch, b, msg). length b)")
  show "wf (measure (\<lambda>(sch, b, msg). length b))" by simp
next
  fix sch :: pbSchema and b msg x2 tag rest x2a v rest'
  assume "consumeVarint b = Some x2" "(tag, rest) = x2"
    and "consumeBytes rest = Some x2a" "(v, rest') = x2a"
  then have "length rest < length b" "length rest' < length rest"
    by (auto dest: consumeVarint_shorter consumeBytes_shorter [of rest v rest'])
  then show "((sch, rest', msg\<lparr>pb_Name := v\<rparr>), sch, b, msg)
               \<in> measure (\<lambda>(sch, b, msg). length b)" by simp
next
  fix sch :: pbSchema and b msg x2 tag rest x2a v rest'
  assume "consumeVarint b = Some x2" "(tag, rest) = x2"
    and "consumeVarint rest = Some x2a" "(v, rest') = x2a"
  then have "length rest < length b" "length rest' < length rest"
    by (auto dest: consumeVarint_shorter consumeVarint_shorter [of rest v rest'])
  then show "((sch, rest', msg\<lparr>pb_Id := of_nat v\<rparr>), sch, b, msg)
               \<in> measure (\<lambda>(sch, b, msg). length b)" by simp
next
  fix sch :: pbSchema and b msg x2 tag rest rest'
  assume "consumeVarint b = Some x2" "(tag, rest) = x2"
    and "consumeFieldValue (tag div 8) (tag mod 8) rest = Some rest'"
  then have "length rest < length b" "length rest' \<le> length rest"
    by (auto dest: consumeVarint_shorter consumeFieldValue_shorter)
  then show "((sch, rest', msg), sch, b, msg) \<in> measure (\<lambda>(sch, b, msg). length b)" by simp
qed

declare unmarshalFields.simps [simp del]

text \<open>
  \<^verbatim>\<open>proto.Marshal\<close> of the message: it fails on a name that is not valid UTF-8.
\<close>

definition appendTag :: "nat \<Rightarrow> nat \<Rightarrow> string" where
  "appendTag num typ = appendVarint (num * 8 + typ)"

definition marshalName :: "pbSchema \<Rightarrow> string \<Rightarrow> string" where
  "marshalName sch nm =
     (if nm = [] then [] else appendTag (nameField sch) 2 @ appendVarint (length nm) @ nm)"

definition marshalId :: "pbSchema \<Rightarrow> 64 word \<Rightarrow> string" where
  "marshalId sch i =
     (if i = 0 then [] else appendTag (idField sch) 0 @ appendVarint (unat i))"

definition proto_Marshal :: "pbSchema \<Rightarrow> metapb_Member \<Rightarrow> error + string" where
  "proto_Marshal sch pb =
     (if \<not> utf8Valid (pb_Name pb) then Inl errInvalidUTF8
      else Inr (if nameField sch < idField sch
                then marshalName sch (pb_Name pb) @ marshalId sch (pb_Id pb)
                else marshalId sch (pb_Id pb) @ marshalName sch (pb_Name pb)))"

definition proto_Unmarshal :: "pbSchema \<Rightarrow> string \<Rightarrow> error + metapb_Member" where
  "proto_Unmarshal sch b = unmarshalFields sch b \<lparr>pb_Name = [], pb_Id = 0\<rparr>"

definition schema_ok :: "pbSchema \<Rightarrow> bool" where
  "schema_ok sch =
     (1 \<le> nameField sch \<and> nameField sch \<le> 536870911
      \<and> 1 \<le> idField sch \<and> idField sch \<le> 536870911
      \<and> nameField sch \<noteq> idField sch)"

text \<open>A schema for the examples: name is field 1, id is field 2.\<close>

definition memberSchema :: pbSchema where
  "memberSchema = \<lparr>nameField = 1, idField = 2\<rparr>"

section \<open>Properties of GetLeader\<close>

text \<open>
  C4. On the success path of \<^verbatim>\<open>GetLeader\<close> (the read of the leader key answers with a
  response): a response with no pair gives the empty result, no leader and revision
  zero, and no error; a response with exactly one pair whose value deserializes gives
  the deserialized member and that pair's \<^verbatim>\<open>ModRevision\<close>, and no error.
\<close>

theorem GetLeader_success_path:
  assumes "kvGet (leaderKey m) = Inr resp"
  shows "(Kvs resp = [] \<longrightarrow>
            GetLeader unmarshal kvGet m = Inr \<lparr>Leader = None, Revision = 0\<rparr>)
       \<and> (\<forall>kv ld. Kvs resp = [kv] \<and> unmarshal (Value kv) = Inr ld \<longrightarrow>
            GetLeader unmarshal kvGet m = Inr \<lparr>Leader = Some ld, Revision = ModRevision kv\<rparr>)"
  using assms by (simp add: GetLeader_def)

theorem GetLeader_success_path_witness:
  "GetLeader (\<lambda>bs. if bs = ''v'' then Inr \<lparr>pb_Name = ''node-a'', pb_Id = 7\<rparr> else Inl (GoError ''proto''))
     (\<lambda>k. Inr \<lparr>Kvs = []\<rparr>) (NewMember ''/root'' 7 ''node-a'' 5)
     = Inr \<lparr>Leader = None, Revision = 0\<rparr>
   \<and> GetLeader (\<lambda>bs. if bs = ''v'' then Inr \<lparr>pb_Name = ''node-a'', pb_Id = 7\<rparr> else Inl (GoError ''proto''))
     (\<lambda>k. Inr \<lparr>Kvs = [\<lparr>Key = k, CreateRevision = 4, ModRevision = 9, Version = 2,
                         Value = ''v'', Lease = 3\<rparr>]\<rparr>)
     (NewMember ''/root'' 7 ''node-a'' 5)
     = Inr \<lparr>Leader = Some \<lparr>pb_Name = ''node-a'', pb_Id = 7\<rparr>, Revision = 9\<rparr>"
proof -
  let ?un = "\<lambda>bs. if bs = ''v'' then Inr \<lparr>pb_Name = ''node-a'', pb_Id = (7 :: 64 word)\<rparr>
                   else Inl (GoError ''proto'')"
  let ?m = "NewMember ''/root'' 7 ''node-a'' 5"
  let ?kv = "\<lparr>Key = leaderKey ?m, CreateRevision = 4, ModRevision = 9, Version = 2,
              Value = ''v'', Lease = 3\<rparr>"
  let ?g1 = "\<lambda>k :: string. Inr \<lparr>Kvs = []\<rparr> :: error + GetResponse"
  let ?g2 = "\<lambda>k. Inr \<lparr>Kvs = [\<lparr>Key = k, CreateRevision = 4, ModRevision = 9, Version = 2,
                         Value = ''v'', Lease = 3\<rparr>]\<rparr> :: error + GetResponse"
  from GetLeader_success_path [where kvGet = ?g1 and m = ?m and resp = "\<lparr>Kvs = []\<rparr>"
         and unmarshal = ?un]
       GetLeader_success_path [where kvGet = ?g2 and m = ?m and resp = "\<lparr>Kvs = [?kv]\<rparr>"
         and unmarshal = ?un]
  show ?thesis by simp
qed

text \<open>
  C5. \<^verbatim>\<open>GetLeader\<close> fails exactly in three cases: the read errors, and the failure is
  \<^verbatim>\<open>ErrGetLeader\<close> (GetLeaderFailed) with the read's error as cause; the read yields more
  than one pair, and the failure is \<^verbatim>\<open>ErrMultipleLeader\<close> (MultipleLeaders); the read
  yields one pair whose value does not deserialize, and the failure is
  \<^verbatim>\<open>ErrInvalidLeaderValue\<close> (InvalidLeaderValue) with the decoder's error as cause.
\<close>

theorem GetLeader_failures:
  "(\<forall>e. kvGet (leaderKey m) = Inl e \<longrightarrow>
        GetLeader unmarshal kvGet m = Inl (WithCause ErrGetLeader e))
 \<and> (\<forall>resp. kvGet (leaderKey m) = Inr resp \<and> length (Kvs resp) > 1 \<longrightarrow>
        GetLeader unmarshal kvGet m = Inl (CodeError ErrMultipleLeader None))
 \<and> (\<forall>kv e. kvGet (leaderKey m) = Inr \<lparr>Kvs = [kv]\<rparr> \<and> unmarshal (Value kv) = Inl e \<longrightarrow>
        GetLeader unmarshal kvGet m = Inl (WithCause ErrInvalidLeaderValue e))
 \<and> (isl (GetLeader unmarshal kvGet m) \<longleftrightarrow>
        isl (kvGet (leaderKey m))
      \<or> (\<exists>resp. kvGet (leaderKey m) = Inr resp \<and> length (Kvs resp) > 1)
      \<or> (\<exists>kv. kvGet (leaderKey m) = Inr \<lparr>Kvs = [kv]\<rparr> \<and> isl (unmarshal (Value kv))))"
proof (intro conjI allI impI)
  fix e assume "kvGet (leaderKey m) = Inl e"
  then show "GetLeader unmarshal kvGet m = Inl (WithCause ErrGetLeader e)"
    by (simp add: GetLeader_def)
next
  fix resp assume "kvGet (leaderKey m) = Inr resp \<and> length (Kvs resp) > 1"
  then show "GetLeader unmarshal kvGet m = Inl (CodeError ErrMultipleLeader None)"
    by (simp add: GetLeader_def)
next
  fix kv e assume "kvGet (leaderKey m) = Inr \<lparr>Kvs = [kv]\<rparr> \<and> unmarshal (Value kv) = Inl e"
  then show "GetLeader unmarshal kvGet m = Inl (WithCause ErrInvalidLeaderValue e)"
    by (simp add: GetLeader_def)
next
  show "isl (GetLeader unmarshal kvGet m) \<longleftrightarrow>
        isl (kvGet (leaderKey m))
      \<or> (\<exists>resp. kvGet (leaderKey m) = Inr resp \<and> length (Kvs resp) > 1)
      \<or> (\<exists>kv. kvGet (leaderKey m) = Inr \<lparr>Kvs = [kv]\<rparr> \<and> isl (unmarshal (Value kv)))"
  proof (cases "kvGet (leaderKey m)")
    case (Inl e)
    then show ?thesis by (simp add: GetLeader_def)
  next
    case (Inr resp)
    show ?thesis
    proof (cases "Kvs resp")
      case Nil
      with Inr show ?thesis by (auto simp add: GetLeader_def)
    next
      case (Cons kv rest)
      note c = Cons
      show ?thesis
      proof (cases rest)
        case Nil
        have r: "resp = \<lparr>Kvs = [kv]\<rparr>" using c Nil by (cases resp) simp
        show ?thesis using Inr r
          by (cases "unmarshal (Value kv)") (simp_all add: GetLeader_def)
      next
        case (Cons kv2 rest2)
        with Inr c show ?thesis by (auto simp add: GetLeader_def)
      qed
    qed
  qed
qed

theorem GetLeader_failures_witness:
  "GetLeader (\<lambda>bs. Inl (GoError ''proto: cannot parse''))
     (\<lambda>k. Inl (GoError ''context deadline exceeded'')) (NewMember ''/root'' 7 ''node-a'' 5)
     = Inl (CodeError ErrGetLeader (Some (GoError ''context deadline exceeded'')))
   \<and> GetLeader (\<lambda>bs. Inl (GoError ''proto: cannot parse''))
     (\<lambda>k. Inr \<lparr>Kvs = [\<lparr>Key = k, CreateRevision = 4, ModRevision = 9, Version = 2,
                         Value = ''junk'', Lease = 3\<rparr>]\<rparr>)
     (NewMember ''/root'' 7 ''node-a'' 5)
     = Inl (CodeError ErrInvalidLeaderValue (Some (GoError ''proto: cannot parse'')))"
proof -
  let ?un = "\<lambda>bs :: string. Inl (GoError ''proto: cannot parse'') :: error + metapb_Member"
  let ?m = "NewMember ''/root'' 7 ''node-a'' 5"
  let ?g1 = "\<lambda>k :: string. Inl (GoError ''context deadline exceeded'') :: error + GetResponse"
  let ?g2 = "\<lambda>k. Inr \<lparr>Kvs = [\<lparr>Key = k, CreateRevision = 4, ModRevision = 9, Version = 2,
                         Value = ''junk'', Lease = 3\<rparr>]\<rparr> :: error + GetResponse"
  from GetLeader_failures [of ?g1 ?m ?un] GetLeader_failures [of ?g2 ?m ?un]
  show ?thesis by (simp add: WithCause_def)
qed

section \<open>Properties of ResetLeader\<close>

text \<open>
  C6. \<^verbatim>\<open>ResetLeader\<close> sends one unconditional delete of the leader key and never reads
  the key. It returns \<^verbatim>\<open>nil\<close> whenever the delete answers with a response, whatever
  the count of deleted keys (zero when the key was absent), and it returns
  \<^verbatim>\<open>ErrResetLeader\<close> (ResetLeaderFailed) with the delete's error as cause exactly when
  the delete errors.
\<close>

theorem ResetLeader_result:
  "(\<forall>r. kvDelete (leaderKey m) = Inr r \<longrightarrow> ResetLeader kvDelete m = None)
 \<and> (\<forall>e. kvDelete (leaderKey m) = Inl e \<longrightarrow>
        ResetLeader kvDelete m = Some (WithCause ErrResetLeader e))
 \<and> (ResetLeader kvDelete m \<noteq> None \<longleftrightarrow> isl (kvDelete (leaderKey m)))"
  by (cases "kvDelete (leaderKey m)") (simp_all add: ResetLeader_def)

theorem ResetLeader_result_witness:
  "ResetLeader (\<lambda>k. Inr \<lparr>Deleted = 0\<rparr>) (NewMember ''/root'' 7 ''node-a'' 5) = None
 \<and> ResetLeader (\<lambda>k. Inl (GoError ''etcdserver: request timed out''))
      (NewMember ''/root'' 7 ''node-a'' 5)
     = Some (CodeError ErrResetLeader (Some (GoError ''etcdserver: request timed out'')))"
proof -
  let ?m = "NewMember ''/root'' 7 ''node-a'' 5"
  let ?d1 = "\<lambda>k :: string. Inr \<lparr>Deleted = 0\<rparr> :: error + DeleteResponse"
  let ?d2 = "\<lambda>k :: string. Inl (GoError ''etcdserver: request timed out'') :: error + DeleteResponse"
  from ResetLeader_result [of ?d1 ?m] ResetLeader_result [of ?d2 ?m]
  show ?thesis by (simp add: WithCause_def)
qed

section \<open>Facts about the monitoring loop and the event trace\<close>

lemma keepLeaderLoop_append:
  "keepLeaderLoop m pre = None \<Longrightarrow> keepLeaderLoop m (pre @ ws) = keepLeaderLoop m ws"
  by (induction pre) (auto split: if_splits)

lemma keepLeaderLoop_returns_nil:
  "keepLeaderLoop m ws = Some (e, logged) \<Longrightarrow>
     e = None \<and> leaseCloses logged = [] \<and> kvRequests logged = []"
  by (induction ws) (auto split: if_splits)

lemma keepLeaderLoop_blocked_while_leading:
  "list_all (\<lambda>w. leaseIsLeader w \<and> etcdLeader w = ID m \<and> \<not> ctxDone w) ws \<Longrightarrow>
     keepLeaderLoop m ws = None"
  by (induction ws) auto

lemma kvRequests_append: "kvRequests (xs @ ys) = kvRequests xs @ kvRequests ys"
  by (induction xs rule: kvRequests.induct) auto

lemma leaseCloses_append: "leaseCloses (xs @ ys) = leaseCloses xs @ leaseCloses ys"
  by (induction xs rule: leaseCloses.induct) auto

lemma kvRequests_closeAfterTxn: "kvRequests (closeAfterTxn lc i) = []"
  by (simp add: closeAfterTxn_def split: option.splits)

text \<open>The paths of the campaign, one equation each.\<close>

lemma Campaign_marshal_failed:
  "Marshal pm m = Inl e \<Longrightarrow>
     CampaignAndKeepLeader pm lg kt lc m ttl ws = (Return (Some e), [])"
  by (simp add: CampaignAndKeepLeader_def)

lemma Campaign_grant_failed:
  "Marshal pm m = Inr leaderVal \<Longrightarrow> lg ttl = Inl e \<Longrightarrow>
     CampaignAndKeepLeader pm lg kt lc m ttl ws = (Return (Some e), [LeaseGrant ttl])"
  by (simp add: CampaignAndKeepLeader_def)

lemma Campaign_txn_error:
  "Marshal pm m = Inr leaderVal \<Longrightarrow> lg ttl = Inr leaseID \<Longrightarrow>
   kt (campaignTxn (leaderKey m) leaderVal leaseID) = Inl e \<Longrightarrow>
     CampaignAndKeepLeader pm lg kt lc m ttl ws =
       (Return (Some (WithCause ErrTxnPutLeader e)),
        [LeaseGrant ttl, KvTxn (campaignTxn (leaderKey m) leaderVal leaseID)]
          @ closeAfterTxn lc leaseID)"
  by (simp add: CampaignAndKeepLeader_def Let_def)

lemma Campaign_txn_lost:
  "Marshal pm m = Inr leaderVal \<Longrightarrow> lg ttl = Inr leaseID \<Longrightarrow>
   kt (campaignTxn (leaderKey m) leaderVal leaseID) = Inr resp \<Longrightarrow> \<not> Succeeded resp \<Longrightarrow>
     CampaignAndKeepLeader pm lg kt lc m ttl ws =
       (Return (Some (WithCausef ErrTxnPutLeader ''txn put leader failed, resp:%v'')),
        [LeaseGrant ttl, KvTxn (campaignTxn (leaderKey m) leaderVal leaseID)]
          @ closeAfterTxn lc leaseID)"
  by (simp add: CampaignAndKeepLeader_def Let_def)

lemma Campaign_txn_won:
  "Marshal pm m = Inr leaderVal \<Longrightarrow> lg ttl = Inr leaseID \<Longrightarrow>
   kt (campaignTxn (leaderKey m) leaderVal leaseID) = Inr resp \<Longrightarrow> Succeeded resp \<Longrightarrow>
     CampaignAndKeepLeader pm lg kt lc m ttl ws =
       (case keepLeaderLoop m ws of
          None \<Rightarrow>
            (Blocked,
             [LeaseGrant ttl, KvTxn (campaignTxn (leaderKey m) leaderVal leaseID),
              LogInfo ''succeed to set leader'', GoKeepAlive leaseID])
        | Some (err, logged) \<Rightarrow>
            (Return err,
             [LeaseGrant ttl, KvTxn (campaignTxn (leaderKey m) leaderVal leaseID),
              LogInfo ''succeed to set leader'', GoKeepAlive leaseID] @ logged))"
  by (simp add: CampaignAndKeepLeader_def Let_def)

lemma kvRequests_Campaign:
  "kvRequests (snd (CampaignAndKeepLeader pm lg kt lc m ttl ws)) =
     (case Marshal pm m of
        Inl _ \<Rightarrow> []
      | Inr leaderVal \<Rightarrow>
          (case lg ttl of
             Inl _ \<Rightarrow> []
           | Inr leaseID \<Rightarrow> [campaignTxn (leaderKey m) leaderVal leaseID]))"
proof (cases "Marshal pm m")
  case (Inl e)
  then show ?thesis by (simp add: Campaign_marshal_failed)
next
  case (Inr leaderVal)
  note mv = Inr
  show ?thesis
  proof (cases "lg ttl")
    case (Inl e)
    with mv show ?thesis by (simp add: Campaign_grant_failed)
  next
    case (Inr leaseID)
    note gv = Inr
    show ?thesis
    proof (cases "kt (campaignTxn (leaderKey m) leaderVal leaseID)")
      case (Inl e)
      with mv gv show ?thesis
        by (simp add: Campaign_txn_error kvRequests_closeAfterTxn)
    next
      case (Inr resp)
      note tv = Inr
      show ?thesis
      proof (cases "Succeeded resp")
        case False
        with mv gv tv show ?thesis
          by (simp add: Campaign_txn_lost kvRequests_closeAfterTxn)
      next
        case True
        note won = Campaign_txn_won [where pm = pm and m = m and lg = lg and kt = kt
            and leaderVal = leaderVal and leaseID = leaseID and resp = resp]
        show ?thesis
        proof (cases "keepLeaderLoop m ws")
          case None
          with mv gv tv True show ?thesis by (simp add: won)
        next
          case (Some r)
          obtain e logged where r: "r = (e, logged)" by (cases r)
          from Some r have "kvRequests logged = []"
            using keepLeaderLoop_returns_nil by blast
          with mv gv tv True Some r show ?thesis by (simp add: won)
        qed
      qed
    qed
  qed
qed

section \<open>Facts about the store's transaction\<close>

lemma etcd_txn_present:
  assumes "contents st key = Some kv" "CreateRevision kv \<noteq> 0"
  shows "etcd_txn st (campaignTxn key v l) = (\<lparr>Succeeded = False\<rparr>, st)"
  using assms by (simp add: etcd_txn_def campaignTxn_def etcd_compare_def)

lemma etcd_serial_present:
  assumes "contents st key = Some kv" "CreateRevision kv \<noteq> 0"
  shows "filter Succeeded (etcd_serial st (campaigns key cs)) = []"
  using assms
  by (induction cs) (auto simp add: campaigns_def etcd_txn_present)

lemma etcd_txn_absent:
  assumes "contents st key = None"
  shows "etcd_txn st (campaignTxn key v l) =
     (\<lparr>Succeeded = True\<rparr>,
      \<lparr>revision = revision st + 1,
       contents = (contents st)(key \<mapsto> \<lparr>Key = key, CreateRevision = revision st + 1,
          ModRevision = revision st + 1, Version = 1, Value = v, Lease = l\<rparr>)\<rparr>)"
  using assms by (simp add: etcd_txn_def campaignTxn_def etcd_compare_def Let_def)

lemma etcd_serial_at_most_one:
  assumes "etcd_key_ok st key"
  shows "length (filter Succeeded (etcd_serial st (campaigns key cs))) \<le> 1"
proof (cases "contents st key")
  case (Some kv)
  with assms have "CreateRevision kv \<noteq> 0" by (simp add: etcd_key_ok_def)
  with Some show ?thesis by (simp add: etcd_serial_present)
next
  case None
  show ?thesis
  proof (cases cs)
    case Nil
    then show ?thesis by (simp add: campaigns_def)
  next
    case (Cons c rest)
    obtain v l where c: "c = (v, l)" by (cases c)
    let ?st' = "\<lparr>revision = revision st + 1,
       contents = (contents st)(key \<mapsto> \<lparr>Key = key, CreateRevision = revision st + 1,
          ModRevision = revision st + 1, Version = 1, Value = v, Lease = l\<rparr>)\<rparr>"
    have "revision st + 1 \<noteq> 0" using assms by (simp add: etcd_key_ok_def)
    then have "filter Succeeded (etcd_serial ?st' (campaigns key rest)) = []"
      by (intro etcd_serial_present) auto
    moreover have "etcd_serial st (campaigns key cs)
        = \<lparr>Succeeded = True\<rparr> # etcd_serial ?st' (campaigns key rest)"
      using Cons c None etcd_txn_absent [OF None, of v l]
      by (simp add: campaigns_def)
    ultimately show ?thesis by simp
  qed
qed

lemma etcd_txn_succeeds_iff_absent:
  assumes "etcd_key_ok st key"
  shows "Succeeded (fst (etcd_txn st (campaignTxn key v l))) \<longleftrightarrow> contents st key = None"
proof (cases "contents st key")
  case None
  then show ?thesis by (simp add: etcd_txn_absent)
next
  case (Some kv)
  with assms have "CreateRevision kv \<noteq> 0" by (simp add: etcd_key_ok_def)
  with Some show ?thesis by (simp add: etcd_txn_present)
qed

section \<open>The campaign's write\<close>

text \<open>
  C2. \<^verbatim>\<open>CampaignAndKeepLeader\<close> sends the store one write and no other: the transaction
  whose condition is that the creation revision of the leader key equals zero and whose
  then-branch puts the serialized identity under the lease just granted (a run that
  fails to serialize or to be granted a lease sends none). Against a store whose
  revisions are positive the condition holds exactly when the leader key does not
  exist, so of the transactions of any number of racing campaigns, committed one after
  the other, at most one succeeds.
\<close>

theorem Campaign_single_conditional_write:
  assumes "etcd_key_ok st (leaderKey m)"
  shows "kvRequests (snd (CampaignAndKeepLeader pm lg kt lc m ttl ws)) =
           (case Marshal pm m of
              Inl _ \<Rightarrow> []
            | Inr leaderVal \<Rightarrow>
                (case lg ttl of
                   Inl _ \<Rightarrow> []
                 | Inr leaseID \<Rightarrow> [campaignTxn (leaderKey m) leaderVal leaseID]))
       \<and> campaignTxn (leaderKey m) v l =
           \<lparr>txnIf = [\<lparr>cmpKey = leaderKey m, cmpTarget = CmpCreateRevision, cmpOp = ''='',
                      cmpValue = 0\<rparr>],
            txnThen = [OpPut (leaderKey m) v l], txnElse = []\<rparr>
       \<and> (Succeeded (fst (etcd_txn st (campaignTxn (leaderKey m) v l)))
            \<longleftrightarrow> contents st (leaderKey m) = None)
       \<and> length (filter Succeeded (etcd_serial st (campaigns (leaderKey m) cs))) \<le> 1"
proof (intro conjI)
  show "kvRequests (snd (CampaignAndKeepLeader pm lg kt lc m ttl ws)) =
           (case Marshal pm m of
              Inl _ \<Rightarrow> []
            | Inr leaderVal \<Rightarrow>
                (case lg ttl of
                   Inl _ \<Rightarrow> []
                 | Inr leaseID \<Rightarrow> [campaignTxn (leaderKey m) leaderVal leaseID]))"
    by (rule kvRequests_Campaign)
  show "campaignTxn (leaderKey m) v l =
           \<lparr>txnIf = [\<lparr>cmpKey = leaderKey m, cmpTarget = CmpCreateRevision, cmpOp = ''='',
                      cmpValue = 0\<rparr>],
            txnThen = [OpPut (leaderKey m) v l], txnElse = []\<rparr>"
    by (simp add: campaignTxn_def)
  show "Succeeded (fst (etcd_txn st (campaignTxn (leaderKey m) v l)))
            \<longleftrightarrow> contents st (leaderKey m) = None"
    using assms by (rule etcd_txn_succeeds_iff_absent)
  show "length (filter Succeeded (etcd_serial st (campaigns (leaderKey m) cs))) \<le> 1"
    using assms by (rule etcd_serial_at_most_one)
qed

theorem Campaign_single_conditional_write_witness:
  "etcd_key_ok emptyStore (leaderKey (NewMember ''/root'' 7 ''node-a'' 5))
 \<and> kvRequests (snd (CampaignAndKeepLeader (\<lambda>pb. Inr (pb_Name pb)) (\<lambda>ttl. Inr 11)
       (\<lambda>t. Inr (fst (etcd_txn emptyStore t))) (\<lambda>i. None)
       (NewMember ''/root'' 7 ''node-a'' 5) 10 []))
     = [campaignTxn ''/root/members/leader'' ''node-a'' 11]
 \<and> Succeeded (fst (etcd_txn emptyStore (campaignTxn ''/root/members/leader'' ''node-a'' 11)))
 \<and> length (filter Succeeded (etcd_serial emptyStore
       (campaigns ''/root/members/leader'' [(''node-a'', 11), (''node-b'', 12)]))) \<le> 1"
proof -
  let ?m = "NewMember ''/root'' 7 ''node-a'' 5"
  have ok: "etcd_key_ok emptyStore (leaderKey ?m)"
    by (simp add: etcd_key_ok_def emptyStore_def)
  note w = Campaign_single_conditional_write [OF ok,
      where pm = "\<lambda>pb. Inr (pb_Name pb)" and lg = "\<lambda>ttl. Inr 11"
        and kt = "\<lambda>t. Inr (fst (etcd_txn emptyStore t))" and lc = "\<lambda>i. None"
        and ttl = 10 and ws = "[]" and v = "''node-a''" and l = 11
        and cs = "[(''node-a'', 11), (''node-b'', 12)]"]
  have key: "leaderKey ?m = ''/root/members/leader''"
    by (simp add: NewMember_def formatLeaderKey_def)
  have a: "kvRequests (snd (CampaignAndKeepLeader (\<lambda>pb. Inr (pb_Name pb)) (\<lambda>ttl. Inr 11)
       (\<lambda>t. Inr (fst (etcd_txn emptyStore t))) (\<lambda>i. None) ?m 10 []))
     = [campaignTxn ''/root/members/leader'' ''node-a'' 11]"
    using w [THEN conjunct1] by (simp add: Marshal_def NewMember_def formatLeaderKey_def)
  have b: "Succeeded (fst (etcd_txn emptyStore
             (campaignTxn ''/root/members/leader'' ''node-a'' 11)))"
    using w [THEN conjunct2, THEN conjunct2, THEN conjunct1]
    by (simp add: key) (simp add: emptyStore_def)
  have c: "length (filter Succeeded (etcd_serial emptyStore
       (campaigns ''/root/members/leader'' [(''node-a'', 11), (''node-b'', 12)]))) \<le> 1"
    using w [THEN conjunct2, THEN conjunct2, THEN conjunct2] by (simp add: key)
  from ok a b c show ?thesis by blast
qed

section \<open>Losing the campaign\<close>

text \<open>
  C3. In a run of \<^verbatim>\<open>CampaignAndKeepLeader\<close> that was granted a lease and whose
  transaction errors or commits with \<^verbatim>\<open>Succeeded = false\<close>, the lease just granted is
  closed after the transaction and before the return, and the call returns
  \<^verbatim>\<open>ErrTxnPutLeader\<close> (TxnPutLeaderFailed) with a cause: the transaction's error, or the
  message that the put failed. When closing the lease fails, that failure is logged and
  the returned error is the same.
\<close>

theorem Campaign_txn_failure_closes_lease:
  assumes "Marshal pm m = Inr leaderVal" and "lg ttl = Inr leaseID"
  shows "(\<forall>err. kt (campaignTxn (leaderKey m) leaderVal leaseID) = Inl err \<longrightarrow>
            CampaignAndKeepLeader pm lg kt lc m ttl ws =
              (Return (Some (WithCause ErrTxnPutLeader err)),
               [LeaseGrant ttl, KvTxn (campaignTxn (leaderKey m) leaderVal leaseID),
                LeaseClose leaseID]
               @ (case lc leaseID of
                    None \<Rightarrow> []
                  | Some closeErr \<Rightarrow>
                      [LogError ''close lease failed after txn put leader'' (Some closeErr)])))
       \<and> (\<forall>resp. kt (campaignTxn (leaderKey m) leaderVal leaseID) = Inr resp
                  \<and> \<not> Succeeded resp \<longrightarrow>
            CampaignAndKeepLeader pm lg kt lc m ttl ws =
              (Return (Some (CodeError ErrTxnPutLeader
                               (Some (GoError ''txn put leader failed, resp:%v'')))),
               [LeaseGrant ttl, KvTxn (campaignTxn (leaderKey m) leaderVal leaseID),
                LeaseClose leaseID]
               @ (case lc leaseID of
                    None \<Rightarrow> []
                  | Some closeErr \<Rightarrow>
                      [LogError ''close lease failed after txn put leader'' (Some closeErr)])))"
proof (intro conjI allI impI)
  fix err
  assume "kt (campaignTxn (leaderKey m) leaderVal leaseID) = Inl err"
  with assms show "CampaignAndKeepLeader pm lg kt lc m ttl ws =
              (Return (Some (WithCause ErrTxnPutLeader err)),
               [LeaseGrant ttl, KvTxn (campaignTxn (leaderKey m) leaderVal leaseID),
                LeaseClose leaseID]
               @ (case lc leaseID of
                    None \<Rightarrow> []
                  | Some closeErr \<Rightarrow>
                      [LogError ''close lease failed after txn put leader'' (Some closeErr)]))"
    by (simp add: Campaign_txn_error [where leaderVal = leaderVal and leaseID = leaseID]
          closeAfterTxn_def)
next
  fix resp
  assume "kt (campaignTxn (leaderKey m) leaderVal leaseID) = Inr resp \<and> \<not> Succeeded resp"
  with assms show "CampaignAndKeepLeader pm lg kt lc m ttl ws =
              (Return (Some (CodeError ErrTxnPutLeader
                               (Some (GoError ''txn put leader failed, resp:%v'')))),
               [LeaseGrant ttl, KvTxn (campaignTxn (leaderKey m) leaderVal leaseID),
                LeaseClose leaseID]
               @ (case lc leaseID of
                    None \<Rightarrow> []
                  | Some closeErr \<Rightarrow>
                      [LogError ''close lease failed after txn put leader'' (Some closeErr)]))"
    by (simp add: Campaign_txn_lost [where leaderVal = leaderVal and leaseID = leaseID
            and resp = resp] closeAfterTxn_def WithCausef_def)
qed

theorem Campaign_txn_failure_closes_lease_witness:
  "CampaignAndKeepLeader (\<lambda>pb. Inr (pb_Name pb)) (\<lambda>ttl. Inr 11)
     (\<lambda>t. Inl (GoError ''context deadline exceeded''))
     (\<lambda>i. Some (GoError ''lease not found''))
     (NewMember ''/root'' 7 ''node-a'' 5) 10 []
   = (Return (Some (CodeError ErrTxnPutLeader (Some (GoError ''context deadline exceeded'')))),
      [LeaseGrant 10, KvTxn (campaignTxn ''/root/members/leader'' ''node-a'' 11),
       LeaseClose 11,
       LogError ''close lease failed after txn put leader'' (Some (GoError ''lease not found''))])
 \<and> CampaignAndKeepLeader (\<lambda>pb. Inr (pb_Name pb)) (\<lambda>ttl. Inr 11)
     (\<lambda>t. Inr \<lparr>Succeeded = False\<rparr>) (\<lambda>i. None)
     (NewMember ''/root'' 7 ''node-a'' 5) 10 []
   = (Return (Some (CodeError ErrTxnPutLeader
                      (Some (GoError ''txn put leader failed, resp:%v'')))),
      [LeaseGrant 10, KvTxn (campaignTxn ''/root/members/leader'' ''node-a'' 11),
       LeaseClose 11])"
proof -
  let ?m = "NewMember ''/root'' 7 ''node-a'' 5"
  let ?pm = "\<lambda>pb. Inr (pb_Name pb) :: error + string"
  let ?lg = "\<lambda>ttl :: int. Inr 11 :: error + int"
  have mv: "Marshal ?pm ?m = Inr ''node-a''"
    by (simp add: Marshal_def NewMember_def)
  have gv: "?lg 10 = Inr 11" by simp
  have key: "leaderKey ?m = ''/root/members/leader''"
    by (simp add: NewMember_def formatLeaderKey_def)
  note w1 = Campaign_txn_failure_closes_lease [where pm = ?pm and lg = ?lg and m = ?m
        and ttl = 10 and leaderVal = "''node-a''" and leaseID = 11
        and kt = "\<lambda>t. Inl (GoError ''context deadline exceeded'')"
        and lc = "\<lambda>i. Some (GoError ''lease not found'')" and ws = "[]",
      OF mv gv, THEN conjunct1]
  note w2 = Campaign_txn_failure_closes_lease [where pm = ?pm and lg = ?lg and m = ?m
        and ttl = 10 and leaderVal = "''node-a''" and leaseID = 11
        and kt = "\<lambda>t. Inr \<lparr>Succeeded = False\<rparr>" and lc = "\<lambda>i. None" and ws = "[]",
      OF mv gv, THEN conjunct2]
  from w1 w2 show ?thesis by (simp add: key WithCause_def)
qed

section \<open>Leaving the monitoring loop\<close>

text \<open>
  C8. In a run of \<^verbatim>\<open>CampaignAndKeepLeader\<close> that wins the campaign, every return is
  \<^verbatim>\<open>nil\<close> and no run closes the lease. Each exit of the monitoring loop is taken and
  returns \<^verbatim>\<open>nil\<close>: a tick that finds the lease's liveness flag false, a tick that finds
  the store's own leader different from this member, and the cancellation of the
  caller's context; on that cancellation the events of the run are the grant, the
  transaction, the start of the keep-alive and two log lines, with no close or revoke
  of the lease.
\<close>

theorem Campaign_leader_exits_nil:
  assumes "Marshal pm m = Inr leaderVal" and "lg ttl = Inr leaseID"
    and "kt (campaignTxn (leaderKey m) leaderVal leaseID) = Inr resp" and "Succeeded resp"
  shows "(\<forall>e. fst (CampaignAndKeepLeader pm lg kt lc m ttl ws) = Return e \<longrightarrow> e = None)
       \<and> leaseCloses (snd (CampaignAndKeepLeader pm lg kt lc m ttl ws)) = []
       \<and> (\<forall>pre w rest. keepLeaderLoop m pre = None \<longrightarrow>
            (tickerFired w \<and> (\<not> ctxDone w \<or> preferTick w) \<and> \<not> leaseIsLeader w \<longrightarrow>
               fst (CampaignAndKeepLeader pm lg kt lc m ttl (pre @ w # rest)) = Return None)
          \<and> (tickerFired w \<and> (\<not> ctxDone w \<or> preferTick w) \<and> etcdLeader w \<noteq> ID m \<longrightarrow>
               fst (CampaignAndKeepLeader pm lg kt lc m ttl (pre @ w # rest)) = Return None)
          \<and> (callerDone w \<and> \<not> (tickerFired w \<and> preferTick w) \<longrightarrow>
               CampaignAndKeepLeader pm lg kt lc m ttl (pre @ w # rest) =
                 (Return None,
                  [LeaseGrant ttl, KvTxn (campaignTxn (leaderKey m) leaderVal leaseID),
                   LogInfo ''succeed to set leader'', GoKeepAlive leaseID,
                   LogInfo ''server is closed''])))"
proof -
  note won = Campaign_txn_won [where pm = pm and m = m and lg = lg and kt = kt
      and leaderVal = leaderVal and leaseID = leaseID and resp = resp, OF assms]
  have nil: "\<forall>e. fst (CampaignAndKeepLeader pm lg kt lc m ttl ws) = Return e \<longrightarrow> e = None"
  proof (cases "keepLeaderLoop m ws")
    case None
    then show ?thesis by (simp add: won)
  next
    case (Some r)
    obtain e logged where r: "r = (e, logged)" by (cases r)
    from Some r have "e = None" using keepLeaderLoop_returns_nil by blast
    with Some r show ?thesis by (simp add: won)
  qed
  have noclose: "leaseCloses (snd (CampaignAndKeepLeader pm lg kt lc m ttl ws)) = []"
  proof (cases "keepLeaderLoop m ws")
    case None
    then show ?thesis by (simp add: won)
  next
    case (Some r)
    obtain e logged where r: "r = (e, logged)" by (cases r)
    from Some r have "leaseCloses logged = []" using keepLeaderLoop_returns_nil by blast
    with Some r show ?thesis by (simp add: won)
  qed
  have exits: "\<forall>pre w rest. keepLeaderLoop m pre = None \<longrightarrow>
            (tickerFired w \<and> (\<not> ctxDone w \<or> preferTick w) \<and> \<not> leaseIsLeader w \<longrightarrow>
               fst (CampaignAndKeepLeader pm lg kt lc m ttl (pre @ w # rest)) = Return None)
          \<and> (tickerFired w \<and> (\<not> ctxDone w \<or> preferTick w) \<and> etcdLeader w \<noteq> ID m \<longrightarrow>
               fst (CampaignAndKeepLeader pm lg kt lc m ttl (pre @ w # rest)) = Return None)
          \<and> (callerDone w \<and> \<not> (tickerFired w \<and> preferTick w) \<longrightarrow>
               CampaignAndKeepLeader pm lg kt lc m ttl (pre @ w # rest) =
                 (Return None,
                  [LeaseGrant ttl, KvTxn (campaignTxn (leaderKey m) leaderVal leaseID),
                   LogInfo ''succeed to set leader'', GoKeepAlive leaseID,
                   LogInfo ''server is closed'']))"
  proof (intro allI impI)
    fix pre w rest
    assume "keepLeaderLoop m pre = None"
    then have app: "keepLeaderLoop m (pre @ w # rest) = keepLeaderLoop m (w # rest)"
      by (rule keepLeaderLoop_append)
    show "(tickerFired w \<and> (\<not> ctxDone w \<or> preferTick w) \<and> \<not> leaseIsLeader w \<longrightarrow>
               fst (CampaignAndKeepLeader pm lg kt lc m ttl (pre @ w # rest)) = Return None)
          \<and> (tickerFired w \<and> (\<not> ctxDone w \<or> preferTick w) \<and> etcdLeader w \<noteq> ID m \<longrightarrow>
               fst (CampaignAndKeepLeader pm lg kt lc m ttl (pre @ w # rest)) = Return None)
          \<and> (callerDone w \<and> \<not> (tickerFired w \<and> preferTick w) \<longrightarrow>
               CampaignAndKeepLeader pm lg kt lc m ttl (pre @ w # rest) =
                 (Return None,
                  [LeaseGrant ttl, KvTxn (campaignTxn (leaderKey m) leaderVal leaseID),
                   LogInfo ''succeed to set leader'', GoKeepAlive leaseID,
                   LogInfo ''server is closed'']))"
      by (auto simp add: won app ctxDone_def)
  qed
  from nil noclose exits show ?thesis by blast
qed

theorem Campaign_leader_exits_nil_witness:
  "CampaignAndKeepLeader (\<lambda>pb. Inr (pb_Name pb)) (\<lambda>ttl. Inr 11)
     (\<lambda>t. Inr \<lparr>Succeeded = True\<rparr>) (\<lambda>i. None) (NewMember ''/root'' 7 ''node-a'' 5) 10
     [\<lparr>tickerFired = True, leaseIsLeader = True, etcdLeader = 7, callerDone = False,
       deadlinePassed = False, preferTick = True\<rparr>,
      \<lparr>tickerFired = False, leaseIsLeader = True, etcdLeader = 7, callerDone = True,
       deadlinePassed = False, preferTick = False\<rparr>]
   = (Return None,
      [LeaseGrant 10, KvTxn (campaignTxn ''/root/members/leader'' ''node-a'' 11),
       LogInfo ''succeed to set leader'', GoKeepAlive 11, LogInfo ''server is closed''])
 \<and> fst (CampaignAndKeepLeader (\<lambda>pb. Inr (pb_Name pb)) (\<lambda>ttl. Inr 11)
     (\<lambda>t. Inr \<lparr>Succeeded = True\<rparr>) (\<lambda>i. None) (NewMember ''/root'' 7 ''node-a'' 5) 10
     [\<lparr>tickerFired = True, leaseIsLeader = True, etcdLeader = 7, callerDone = False,
       deadlinePassed = False, preferTick = True\<rparr>,
      \<lparr>tickerFired = True, leaseIsLeader = False, etcdLeader = 7, callerDone = False,
       deadlinePassed = False, preferTick = True\<rparr>]) = Return None
 \<and> fst (CampaignAndKeepLeader (\<lambda>pb. Inr (pb_Name pb)) (\<lambda>ttl. Inr 11)
     (\<lambda>t. Inr \<lparr>Succeeded = True\<rparr>) (\<lambda>i. None) (NewMember ''/root'' 7 ''node-a'' 5) 10
     [\<lparr>tickerFired = True, leaseIsLeader = True, etcdLeader = 7, callerDone = False,
       deadlinePassed = False, preferTick = True\<rparr>,
      \<lparr>tickerFired = True, leaseIsLeader = True, etcdLeader = 8, callerDone = False,
       deadlinePassed = False, preferTick = True\<rparr>]) = Return None"
proof -
  let ?m = "NewMember ''/root'' 7 ''node-a'' 5"
  let ?pm = "\<lambda>pb. Inr (pb_Name pb) :: error + string"
  let ?lg = "\<lambda>ttl :: int. Inr 11 :: error + int"
  let ?kt = "\<lambda>t :: TxnRequest. Inr \<lparr>Succeeded = True\<rparr> :: error + TxnResponse"
  let ?lead = "\<lparr>tickerFired = True, leaseIsLeader = True, etcdLeader = 7, callerDone = False,
       deadlinePassed = False, preferTick = True\<rparr>"
  have mv: "Marshal ?pm ?m = Inr ''node-a''"
    by (simp add: Marshal_def NewMember_def)
  have gv: "?lg 10 = Inr 11" by simp
  have tv: "?kt (campaignTxn (leaderKey ?m) ''node-a'' 11) = Inr \<lparr>Succeeded = True\<rparr>" by simp
  have sv: "Succeeded \<lparr>Succeeded = True\<rparr>" by simp
  have key: "leaderKey ?m = ''/root/members/leader''"
    by (simp add: NewMember_def formatLeaderKey_def)
  have pre: "keepLeaderLoop ?m [?lead] = None"
    by (simp add: NewMember_def ctxDone_def)
  note w = Campaign_leader_exits_nil [where pm = ?pm and lg = ?lg and m = ?m
        and ttl = 10 and leaderVal = "''node-a''" and leaseID = 11 and kt = ?kt
        and resp = "\<lparr>Succeeded = True\<rparr>" and lc = "\<lambda>i. None" and ws = "[]",
      OF mv gv tv sv, THEN conjunct2, THEN conjunct2, rule_format, OF pre]
  from w [of "\<lparr>tickerFired = False, leaseIsLeader = True, etcdLeader = 7, callerDone = True,
       deadlinePassed = False, preferTick = False\<rparr>" "[]", THEN conjunct2, THEN conjunct2]
    w [of "\<lparr>tickerFired = True, leaseIsLeader = False, etcdLeader = 7, callerDone = False,
       deadlinePassed = False, preferTick = True\<rparr>" "[]", THEN conjunct1]
    w [of "\<lparr>tickerFired = True, leaseIsLeader = True, etcdLeader = 8, callerDone = False,
       deadlinePassed = False, preferTick = True\<rparr>" "[]", THEN conjunct2, THEN conjunct1]
  show ?thesis by (simp add: key ctxDone_def) (simp add: NewMember_def)
qed

section \<open>The deadline of the campaign's context\<close>

text \<open>
  C1. The loop selects on the \<^verbatim>\<open>Done\<close> channel of the context that
  \<^verbatim>\<open>context.WithTimeout(ctx, m.rpcTimeout)\<close> returned for the transaction, not on the
  caller's. A run that wins the campaign, with the lease's liveness flag true, the
  store's own leader equal to this member's ID and the caller's context not canceled,
  returns \<^verbatim>\<open>nil\<close> and logs that the server is closed as soon as \<^verbatim>\<open>m.rpcTimeout\<close> has
  elapsed.
\<close>

theorem Campaign_returns_at_rpc_deadline:
  "CampaignAndKeepLeader (\<lambda>pb. Inr (pb_Name pb)) (\<lambda>ttl. Inr 11)
     (\<lambda>t. Inr \<lparr>Succeeded = True\<rparr>) (\<lambda>i. None) (NewMember ''/root'' 7 ''node-a'' 5) 10
     [\<lparr>tickerFired = True, leaseIsLeader = True, etcdLeader = 7, callerDone = False,
       deadlinePassed = False, preferTick = True\<rparr>,
      \<lparr>tickerFired = False, leaseIsLeader = True, etcdLeader = 7, callerDone = False,
       deadlinePassed = True, preferTick = False\<rparr>]
   = (Return None,
      [LeaseGrant 10, KvTxn (campaignTxn ''/root/members/leader'' ''node-a'' 11),
       LogInfo ''succeed to set leader'', GoKeepAlive 11, LogInfo ''server is closed''])"
  by (simp add: CampaignAndKeepLeader_def Marshal_def NewMember_def formatLeaderKey_def
        ctxDone_def Let_def)

section \<open>Facts about the watch loop\<close>

lemma drainChannel_quiet:
  "list_all quiet qs \<Longrightarrow> drainChannel (qs @ rest) = drainChannel rest"
  by (induction qs) (auto simp add: quiet_def)

lemma drainChannel_notice:
  "list_all quiet qs \<Longrightarrow> CompactRevision notice \<noteq> 0 \<Longrightarrow>
     drainChannel (qs @ notice # later) = Compacted (CompactRevision notice)"
  by (simp add: drainChannel_quiet)

lemma drainChannel_deletion:
  "list_all quiet qs \<Longrightarrow> CompactRevision resp = 0 \<Longrightarrow> \<not> Canceled resp \<Longrightarrow>
   list_ex (\<lambda>ev. evType ev = DELETE) (Events resp) \<Longrightarrow>
     drainChannel (qs @ resp # later) = Returns [LogInfo ''current leader is deleted'']"
  by (simp add: drainChannel_quiet)

lemma watchLoop_compacted:
  assumes "drainChannel (delivered s) = Compacted c" and "\<not> callerDoneAfter s"
  shows "watchLoop m startRev (s # ss) =
           (fst (watchLoop m c ss),
            [WatchOpen (leaderKey m) startRev,
             LogWarn ''required revision has been compacted, use the compact revision'']
            @ snd (watchLoop m c ss))"
  using assms by (cases "watchLoop m c ss") (simp add: Let_def)

lemma watchLoop_returns:
  assumes "drainChannel (delivered s) = Returns logged"
  shows "watchLoop m startRev (s # ss) = (Returned, WatchOpen (leaderKey m) startRev # logged)"
  using assms by simp

lemma WaitForLeaderChange_compacted:
  assumes "drainChannel (delivered s) = Compacted c" and "\<not> callerDoneAfter s"
  shows "WaitForLeaderChange wc m startRev (s # ss) =
           (fst (WaitForLeaderChange wc m c ss),
            [WatchOpen (leaderKey m) startRev,
             LogWarn ''required revision has been compacted, use the compact revision'']
            @ snd (WaitForLeaderChange wc m c ss))"
proof -
  obtain r evs where w: "watchLoop m c ss = (r, evs)" by (cases "watchLoop m c ss")
  have l: "watchLoop m startRev (s # ss) =
             (r, [WatchOpen (leaderKey m) startRev,
                  LogWarn ''required revision has been compacted, use the compact revision'']
                 @ evs)"
    unfolding watchLoop_compacted [OF assms] w by simp
  show ?thesis
    unfolding WaitForLeaderChange_def l w by (cases r) simp_all
qed

section \<open>Waiting for the leader to change\<close>

text \<open>
  C7. \<^verbatim>\<open>WaitForLeaderChange\<close> has no error to report: a run has returned or is still
  waiting. For every stream of watch responses, when a watch delivers a compaction
  notice (a response whose compact revision is not zero, after responses that carry
  neither a compaction, a cancellation nor a delete) and the caller has not canceled,
  the run goes on exactly as a run started from the reported compact revision: it logs
  a warning and opens the next watch from that revision. When that next watch then
  delivers a delete event on the leader key, the run returns once, after the delete,
  having opened two watches, and closes the watcher.
\<close>

theorem WaitForLeaderChange_compaction_then_delete:
  assumes "list_all quiet before1" and "delivered s1 = before1 @ notice # later1"
    and "CompactRevision notice \<noteq> 0" and "\<not> callerDoneAfter s1"
  shows "(fst (WaitForLeaderChange wc m startRev sessions) = Returned
          \<or> fst (WaitForLeaderChange wc m startRev sessions) = Waiting)
       \<and> WaitForLeaderChange wc m startRev (s1 # ss) =
           (fst (WaitForLeaderChange wc m (CompactRevision notice) ss),
            [WatchOpen (leaderKey m) startRev,
             LogWarn ''required revision has been compacted, use the compact revision'']
            @ snd (WaitForLeaderChange wc m (CompactRevision notice) ss))
       \<and> (\<forall>(s2 :: watchSession) before2 deletion later2.
            list_all quiet before2 \<and> delivered s2 = before2 @ deletion # later2
            \<and> CompactRevision deletion = 0 \<and> \<not> Canceled deletion
            \<and> list_ex (\<lambda>ev. evType ev = DELETE) (Events deletion) \<longrightarrow>
            WaitForLeaderChange wc m startRev (s1 # s2 # ss) =
              (Returned,
               [WatchOpen (leaderKey m) startRev,
                LogWarn ''required revision has been compacted, use the compact revision'',
                WatchOpen (leaderKey m) (CompactRevision notice),
                LogInfo ''current leader is deleted'',
                WatcherClose]
               @ (case wc of
                    Some err \<Rightarrow> [LogError ''close watcher failed'' (Some err)]
                  | None \<Rightarrow> [])))"
proof -
  have d1: "drainChannel (delivered s1) = Compacted (CompactRevision notice)"
    using assms by (simp add: drainChannel_notice)
  note restart = WaitForLeaderChange_compacted [OF d1 assms(4)]
  have total: "fst (WaitForLeaderChange wc m startRev sessions) = Returned
          \<or> fst (WaitForLeaderChange wc m startRev sessions) = Waiting"
    by (cases "fst (WaitForLeaderChange wc m startRev sessions)") simp_all
  have after: "\<forall>(s2 :: watchSession) before2 deletion later2.
            list_all quiet before2 \<and> delivered s2 = before2 @ deletion # later2
            \<and> CompactRevision deletion = 0 \<and> \<not> Canceled deletion
            \<and> list_ex (\<lambda>ev. evType ev = DELETE) (Events deletion) \<longrightarrow>
            WaitForLeaderChange wc m startRev (s1 # s2 # ss) =
              (Returned,
               [WatchOpen (leaderKey m) startRev,
                LogWarn ''required revision has been compacted, use the compact revision'',
                WatchOpen (leaderKey m) (CompactRevision notice),
                LogInfo ''current leader is deleted'',
                WatcherClose]
               @ (case wc of
                    Some err \<Rightarrow> [LogError ''close watcher failed'' (Some err)]
                  | None \<Rightarrow> []))"
  proof (intro allI impI)
    fix s2 :: watchSession and before2 deletion later2
    assume h: "list_all quiet before2 \<and> delivered s2 = before2 @ deletion # later2
            \<and> CompactRevision deletion = 0 \<and> \<not> Canceled deletion
            \<and> list_ex (\<lambda>ev. evType ev = DELETE) (Events deletion)"
    then have d2: "drainChannel (delivered s2) = Returns [LogInfo ''current leader is deleted'']"
      by (simp add: drainChannel_deletion)
    have "WaitForLeaderChange wc m (CompactRevision notice) (s2 # ss) =
            (Returned,
             [WatchOpen (leaderKey m) (CompactRevision notice),
              LogInfo ''current leader is deleted'', WatcherClose]
             @ (case wc of
                  Some err \<Rightarrow> [LogError ''close watcher failed'' (Some err)]
                | None \<Rightarrow> []))"
      unfolding WaitForLeaderChange_def watchLoop_returns [OF d2] by simp
    then show "WaitForLeaderChange wc m startRev (s1 # s2 # ss) =
              (Returned,
               [WatchOpen (leaderKey m) startRev,
                LogWarn ''required revision has been compacted, use the compact revision'',
                WatchOpen (leaderKey m) (CompactRevision notice),
                LogInfo ''current leader is deleted'',
                WatcherClose]
               @ (case wc of
                    Some err \<Rightarrow> [LogError ''close watcher failed'' (Some err)]
                  | None \<Rightarrow> []))"
      by (simp add: restart)
  qed
  from total restart after show ?thesis by blast
qed

theorem WaitForLeaderChange_compaction_then_delete_witness:
  "WaitForLeaderChange None (NewMember ''/root'' 7 ''node-a'' 5) 3
     [\<lparr>delivered = [\<lparr>CompactRevision = 8, Canceled = True, Events = []\<rparr>], closes = True,
       callerDoneAfter = False\<rparr>,
      \<lparr>delivered = [\<lparr>CompactRevision = 0, Canceled = False,
                     Events = [\<lparr>evType = DELETE,
                                evKv = \<lparr>Key = ''/root/members/leader'', CreateRevision = 0,
                                        ModRevision = 9, Version = 0, Value = [], Lease = 0\<rparr>\<rparr>]\<rparr>],
       closes = False, callerDoneAfter = False\<rparr>]
   = (Returned,
      [WatchOpen ''/root/members/leader'' 3,
       LogWarn ''required revision has been compacted, use the compact revision'',
       WatchOpen ''/root/members/leader'' 8,
       LogInfo ''current leader is deleted'',
       WatcherClose])"
proof -
  let ?m = "NewMember ''/root'' 7 ''node-a'' 5"
  let ?notice = "\<lparr>CompactRevision = 8, Canceled = True, Events = []\<rparr>"
  let ?s1 = "\<lparr>delivered = [?notice], closes = True, callerDoneAfter = False\<rparr>"
  let ?deletion = "\<lparr>CompactRevision = 0, Canceled = False,
                     Events = [\<lparr>evType = DELETE,
                                evKv = \<lparr>Key = ''/root/members/leader'', CreateRevision = 0,
                                        ModRevision = 9, Version = 0, Value = [], Lease = 0\<rparr>\<rparr>]\<rparr>"
  let ?s2 = "\<lparr>delivered = [?deletion], closes = False, callerDoneAfter = False\<rparr>"
  have q: "list_all quiet ([] :: WatchResponse list)" by simp
  have a: "delivered ?s1 = [] @ ?notice # []" by simp
  have b: "CompactRevision ?notice \<noteq> 0" by simp
  have c: "\<not> callerDoneAfter ?s1" by simp
  have key: "leaderKey ?m = ''/root/members/leader''"
    by (simp add: NewMember_def formatLeaderKey_def)
  note w = WaitForLeaderChange_compaction_then_delete [where ?before1.0 = "[]" and ?s1.0 = ?s1
      and notice = ?notice and ?later1.0 = "[]" and wc = None and m = ?m and startRev = 3
      and ss = "[]", OF q a b c, THEN conjunct2, THEN conjunct2, rule_format,
      where ?s2.0 = ?s2 and ?before2.0 = "[]" and deletion = ?deletion and ?later2.0 = "[]"]
  then show ?thesis by (simp add: key)
qed

section \<open>Facts about LoadRange\<close>










section \<open>The range read of the KV storage\<close>




section \<open>Facts about the codec\<close>

lemma consumeVarintFrom_append:
  "i \<le> 9 \<Longrightarrow> v * 128 ^ i < 2 ^ 64 \<Longrightarrow>
     consumeVarintFrom i (appendVarint v @ rest) = Some (v, rest)"
proof (induction v arbitrary: i rule: appendVarint.induct)
  case (1 v)
  show ?case
  proof (cases "v < 128")
    case True
    have "i = 9 \<Longrightarrow> v \<le> 1"
    proof -
      assume "i = 9"
      with "1.prems" have "v * 128 ^ 9 < 2 * 128 ^ 9" by simp
      then show "v \<le> 1" by simp
    qed
    with True show ?thesis
      by (subst appendVarint.simps) (auto simp add: Let_def)
  next
    case False
    have i9: "i < 9"
    proof (rule ccontr)
      assume "\<not> i < 9"
      with "1.prems" have "i = 9" by simp
      with "1.prems" have "v * 128 ^ 9 < 2 * 128 ^ 9" by simp
      then have "v < 2" by simp
      with False show False by simp
    qed
    have "(v div 128) * 128 ^ Suc i = ((v div 128) * 128) * 128 ^ i" by simp
    also have "\<dots> \<le> v * 128 ^ i" by (rule mult_le_mono1) simp
    also have "\<dots> < 2 ^ 64" by (rule "1.prems")
    finally have b: "(v div 128) * 128 ^ Suc i < 2 ^ 64" .
    from i9 have "Suc i \<le> 9" by simp
    from "1.IH" [OF False this b]
    have ih: "consumeVarintFrom (Suc i) (appendVarint (v div 128) @ rest) = Some (v div 128, rest)" .
    have m: "of_char (char_of (128 + v mod 128)) = 128 + v mod 128"
      by (simp add: mod_less)
    show ?thesis
      using False i9 ih
      by (subst appendVarint.simps) (simp add: Let_def m del: of_char_of)
  qed
qed

lemma consumeVarint_append:
  "v < 2 ^ 64 \<Longrightarrow> consumeVarint (appendVarint v @ rest) = Some (v, rest)"
  unfolding consumeVarint_def by (rule consumeVarintFrom_append) simp_all

lemma appendVarint_not_Nil: "appendVarint v \<noteq> []"
  by (subst appendVarint.simps) simp

lemma consumeBytes_append:
  "length v < 2 ^ 64 \<Longrightarrow> consumeBytes (appendVarint (length v) @ v @ rest) = Some (v, rest)"
  by (simp add: consumeBytes_def consumeVarint_append)

lemma unmarshalFields_step:
  assumes "consumeVarint b = Some (tag, rest)"
  shows "unmarshalFields sch b msg =
           (if tag div 8 < 1 \<or> tag div 8 > 536870911 then Inl errDecode
            else if tag mod 8 = 4 then Inl errDecode
            else if tag div 8 = nameField sch \<and> tag mod 8 = 2 then
              (case consumeBytes rest of
                 None \<Rightarrow> Inl errDecode
               | Some (v, rest') \<Rightarrow>
                   if \<not> utf8Valid v then Inl errInvalidUTF8
                   else unmarshalFields sch rest' (msg\<lparr>pb_Name := v\<rparr>))
            else if tag div 8 = idField sch \<and> tag mod 8 = 0 then
              (case consumeVarint rest of
                 None \<Rightarrow> Inl errDecode
               | Some (v, rest') \<Rightarrow> unmarshalFields sch rest' (msg\<lparr>pb_Id := of_nat v\<rparr>))
            else
              (case consumeFieldValue (tag div 8) (tag mod 8) rest of
                 None \<Rightarrow> Inl errDecode
               | Some rest' \<Rightarrow> unmarshalFields sch rest' msg))"
proof -
  from assms have "b \<noteq> []" by (auto simp add: consumeVarint_def)
  then show ?thesis
    by (subst unmarshalFields.simps) (simp add: assms)
qed

lemma unmarshal_name_field:
  assumes "schema_ok sch" and "utf8Valid nm" and "length nm < 2 ^ 64"
  shows "unmarshalFields sch (appendTag (nameField sch) 2 @ appendVarint (length nm) @ nm @ rest) msg
           = unmarshalFields sch rest (msg\<lparr>pb_Name := nm\<rparr>)"
proof -
  define tag where "tag = nameField sch * 8 + 2"
  have t: "tag < 2 ^ 64" using assms(1) by (simp add: schema_ok_def tag_def)
  have d: "tag div 8 = nameField sch" and m: "tag mod 8 = 2"
    unfolding tag_def by presburger+
  have c: "consumeVarint (appendVarint tag @ appendVarint (length nm) @ nm @ rest)
             = Some (tag, appendVarint (length nm) @ nm @ rest)"
    using t by (rule consumeVarint_append)
  have ok: "\<not> (tag div 8 < 1 \<or> tag div 8 > 536870911)"
    unfolding d using assms(1) by (simp add: schema_ok_def)
  have "unmarshalFields sch (appendVarint tag @ appendVarint (length nm) @ nm @ rest) msg
           = unmarshalFields sch rest (msg\<lparr>pb_Name := nm\<rparr>)"
    unfolding unmarshalFields_step [OF c] using ok
    by (simp add: d m consumeBytes_append [OF assms(3)] assms(2))
  then show ?thesis by (simp add: appendTag_def tag_def)
qed

lemma unmarshal_id_field:
  assumes "schema_ok sch"
  shows "unmarshalFields sch (appendTag (idField sch) 0 @ appendVarint (unat i) @ rest) msg
           = unmarshalFields sch rest (msg\<lparr>pb_Id := i\<rparr>)"
proof -
  define tag where "tag = idField sch * 8 + 0"
  have t: "tag < 2 ^ 64" using assms(1) by (simp add: schema_ok_def tag_def)
  have d: "tag div 8 = idField sch" and m: "tag mod 8 = 0"
    unfolding tag_def by presburger+
  have c: "consumeVarint (appendVarint tag @ appendVarint (unat i) @ rest)
             = Some (tag, appendVarint (unat i) @ rest)"
    using t by (rule consumeVarint_append)
  have u: "unat i < 2 ^ 64" using unsigned_less [of i] by simp
  have c2: "consumeVarint (appendVarint (unat i) @ rest) = Some (unat i, rest)"
    using u by (rule consumeVarint_append)
  have ok: "\<not> (tag div 8 < 1 \<or> tag div 8 > 536870911)"
    unfolding d using assms(1) by (simp add: schema_ok_def)
  have "unmarshalFields sch (appendVarint tag @ appendVarint (unat i) @ rest) msg
           = unmarshalFields sch rest (msg\<lparr>pb_Id := i\<rparr>)"
    unfolding unmarshalFields_step [OF c] using ok
    by (simp add: d m c2)
  then show ?thesis by (simp add: appendTag_def tag_def)
qed

lemma unmarshal_marshalName:
  assumes "schema_ok sch" and "utf8Valid nm" and "length nm < 2 ^ 64"
  shows "unmarshalFields sch (marshalName sch nm @ rest) (msg\<lparr>pb_Name := []\<rparr>)
           = unmarshalFields sch rest (msg\<lparr>pb_Name := nm\<rparr>)"
  using unmarshal_name_field [OF assms, of rest "msg\<lparr>pb_Name := []\<rparr>"]
  by (simp add: marshalName_def)

lemma unmarshal_marshalId:
  assumes "schema_ok sch"
  shows "unmarshalFields sch (marshalId sch i @ rest) (msg\<lparr>pb_Id := 0\<rparr>)
           = unmarshalFields sch rest (msg\<lparr>pb_Id := i\<rparr>)"
  using unmarshal_id_field [OF assms, of i rest "msg\<lparr>pb_Id := 0\<rparr>"]
  by (simp add: marshalId_def)

lemma proto_round_trip:
  assumes "schema_ok sch" and "utf8Valid (pb_Name pb)" and "length (pb_Name pb) < 2 ^ 64"
  shows "\<exists>bs. proto_Marshal sch pb = Inr bs \<and> proto_Unmarshal sch bs = Inr pb"
proof -
  let ?n = "marshalName sch (pb_Name pb)" and ?i = "marshalId sch (pb_Id pb)"
  let ?z = "\<lparr>pb_Name = [], pb_Id = 0\<rparr>"
  have e: "unmarshalFields sch [] msg = Inr msg" for msg
    by (subst unmarshalFields.simps) simp
  have pbeq: "\<lparr>pb_Name = pb_Name pb, pb_Id = pb_Id pb\<rparr> = pb" by simp
  have a: "unmarshalFields sch (?n @ ?i) ?z = Inr pb"
  proof -
    have "unmarshalFields sch (?n @ ?i) (?z\<lparr>pb_Name := []\<rparr>)
            = unmarshalFields sch ?i (?z\<lparr>pb_Name := pb_Name pb\<rparr>)"
      using assms by (rule unmarshal_marshalName)
    also have "\<dots> = unmarshalFields sch (?i @ []) (\<lparr>pb_Name = pb_Name pb, pb_Id = 0\<rparr>\<lparr>pb_Id := 0\<rparr>)"
      by simp
    also have "\<dots> = unmarshalFields sch [] (\<lparr>pb_Name = pb_Name pb, pb_Id = 0\<rparr>\<lparr>pb_Id := pb_Id pb\<rparr>)"
      using assms(1) by (rule unmarshal_marshalId)
    also have "\<dots> = Inr pb" by (simp add: e)
    finally show ?thesis by simp
  qed
  have b: "unmarshalFields sch (?i @ ?n) ?z = Inr pb"
  proof -
    have "unmarshalFields sch (?i @ ?n) (?z\<lparr>pb_Id := 0\<rparr>)
            = unmarshalFields sch ?n (?z\<lparr>pb_Id := pb_Id pb\<rparr>)"
      using assms(1) by (rule unmarshal_marshalId)
    also have "\<dots> = unmarshalFields sch (?n @ []) (\<lparr>pb_Name = [], pb_Id = pb_Id pb\<rparr>\<lparr>pb_Name := []\<rparr>)"
      by simp
    also have "\<dots> = unmarshalFields sch [] (\<lparr>pb_Name = [], pb_Id = pb_Id pb\<rparr>\<lparr>pb_Name := pb_Name pb\<rparr>)"
      using assms by (rule unmarshal_marshalName)
    also have "\<dots> = Inr pb" by (simp add: e)
    finally show ?thesis by simp
  qed
  show ?thesis using a b assms(2) by (simp add: proto_Marshal_def proto_Unmarshal_def)
qed

lemma unmarshal_truncated_varint:
  "proto_Unmarshal sch [CHR 0xFF] = Inl errDecode"
  unfolding proto_Unmarshal_def
  by (subst unmarshalFields.simps) (simp add: consumeVarint_def)

section \<open>The round trip of the leader record\<close>

text \<open>
  C9, amended. For every member identity whose name is valid UTF-8 (and a Go string),
  \<^verbatim>\<open>Marshal\<close> returns bytes, and the bytes it returns deserialize, as \<^verbatim>\<open>GetLeader\<close>
  deserializes them, to a member with the same id and name; \<^verbatim>\<open>GetLeader\<close> returns that
  member when the store holds these bytes under the leader key. For a name that is not
  valid UTF-8 \<^verbatim>\<open>Marshal\<close> returns no bytes: it fails with \<^verbatim>\<open>ErrMarshalMember\<close>
  (MarshalMemberFailed), the serializer's error as cause. The corrupted byte sequence
  \<^verbatim>\<open>0xFF\<close> does not deserialize, and \<^verbatim>\<open>GetLeader\<close> reports \<^verbatim>\<open>ErrInvalidLeaderValue\<close>
  (InvalidLeaderValue) for it.
\<close>

theorem Marshal_GetLeader_round_trip:
  assumes "schema_ok sch" and "length (Name m) < 2 ^ 63"
  shows "(\<forall>bs. Marshal (proto_Marshal sch) m = Inr bs \<longrightarrow>
            proto_Unmarshal sch bs = Inr \<lparr>pb_Name = Name m, pb_Id = ID m\<rparr>
          \<and> (\<forall>kvGet reader kv.
                kvGet (leaderKey reader) = Inr \<lparr>Kvs = [kv]\<rparr> \<and> Value kv = bs \<longrightarrow>
                GetLeader (proto_Unmarshal sch) kvGet reader =
                  Inr \<lparr>Leader = Some \<lparr>pb_Name = Name m, pb_Id = ID m\<rparr>,
                       Revision = ModRevision kv\<rparr>))
       \<and> (utf8Valid (Name m) \<longrightarrow> (\<exists>bs. Marshal (proto_Marshal sch) m = Inr bs))
       \<and> (\<forall>kvGet reader kv.
             kvGet (leaderKey reader) = Inr \<lparr>Kvs = [kv]\<rparr> \<and> Value kv = [CHR 0xFF] \<longrightarrow>
             GetLeader (proto_Unmarshal sch) kvGet reader =
               Inl (WithCause ErrInvalidLeaderValue errDecode))
       \<and> (\<not> utf8Valid (Name m) \<longrightarrow>
             Marshal (proto_Marshal sch) m = Inl (WithCause ErrMarshalMember errInvalidUTF8))"
proof -
  let ?pb = "\<lparr>pb_Name = Name m, pb_Id = ID m\<rparr>"
  have len: "length (pb_Name ?pb) < 2 ^ 64" using assms(2) by simp
  have rt: "proto_Unmarshal sch bs = Inr ?pb" if "Marshal (proto_Marshal sch) m = Inr bs" for bs
  proof -
    from that have pm: "proto_Marshal sch ?pb = Inr bs"
      by (simp add: Marshal_def Let_def split: sum.splits)
    then have "utf8Valid (pb_Name ?pb)"
      by (simp add: proto_Marshal_def split: if_splits)
    from proto_round_trip [OF assms(1) this len] pm show ?thesis by auto
  qed
  have a: "\<forall>bs. Marshal (proto_Marshal sch) m = Inr bs \<longrightarrow>
            proto_Unmarshal sch bs = Inr ?pb
          \<and> (\<forall>kvGet reader kv.
                kvGet (leaderKey reader) = Inr \<lparr>Kvs = [kv]\<rparr> \<and> Value kv = bs \<longrightarrow>
                GetLeader (proto_Unmarshal sch) kvGet reader =
                  Inr \<lparr>Leader = Some ?pb, Revision = ModRevision kv\<rparr>)"
    using rt by (simp add: GetLeader_def)
  have b: "utf8Valid (Name m) \<longrightarrow> (\<exists>bs. Marshal (proto_Marshal sch) m = Inr bs)"
    by (simp add: Marshal_def proto_Marshal_def Let_def)
  have c: "\<forall>kvGet reader kv.
             kvGet (leaderKey reader) = Inr \<lparr>Kvs = [kv]\<rparr> \<and> Value kv = [CHR 0xFF] \<longrightarrow>
             GetLeader (proto_Unmarshal sch) kvGet reader =
               Inl (WithCause ErrInvalidLeaderValue errDecode)"
    by (simp add: GetLeader_def unmarshal_truncated_varint)
  have d: "\<not> utf8Valid (Name m) \<longrightarrow>
             Marshal (proto_Marshal sch) m = Inl (WithCause ErrMarshalMember errInvalidUTF8)"
    by (simp add: Marshal_def proto_Marshal_def Let_def)
  from a b c d show ?thesis by blast
qed

theorem Marshal_GetLeader_round_trip_witness:
  "Marshal (proto_Marshal memberSchema) (NewMember ''/root'' 7 ''node-a'' 5)
     = Inr [CHR 0x0A, CHR 0x06, CHR ''n'', CHR ''o'', CHR ''d'', CHR ''e'', CHR ''-'', CHR ''a'',
            CHR 0x10, CHR 0x07]
 \<and> proto_Unmarshal memberSchema
       [CHR 0x0A, CHR 0x06, CHR ''n'', CHR ''o'', CHR ''d'', CHR ''e'', CHR ''-'', CHR ''a'',
        CHR 0x10, CHR 0x07]
     = Inr \<lparr>pb_Name = ''node-a'', pb_Id = 7\<rparr>
 \<and> GetLeader (proto_Unmarshal memberSchema)
       (\<lambda>k. Inr \<lparr>Kvs = [\<lparr>Key = ''/root/members/leader'', CreateRevision = 4, ModRevision = 9, Version = 1,
                           Value = [CHR 0x0A, CHR 0x06, CHR ''n'', CHR ''o'', CHR ''d'', CHR ''e'',
                                    CHR ''-'', CHR ''a'', CHR 0x10, CHR 0x07],
                           Lease = 11\<rparr>]\<rparr>)
       (NewMember ''/root'' 8 ''node-b'' 5)
     = Inr \<lparr>Leader = Some \<lparr>pb_Name = ''node-a'', pb_Id = 7\<rparr>, Revision = 9\<rparr>
 \<and> GetLeader (proto_Unmarshal memberSchema)
       (\<lambda>k. Inr \<lparr>Kvs = [\<lparr>Key = ''/root/members/leader'', CreateRevision = 4, ModRevision = 9, Version = 1,
                           Value = [CHR 0xFF], Lease = 11\<rparr>]\<rparr>)
       (NewMember ''/root'' 8 ''node-b'' 5)
     = Inl (CodeError ErrInvalidLeaderValue (Some errDecode))"
proof -
  let ?m = "NewMember ''/root'' 7 ''node-a'' 5"
  let ?r = "NewMember ''/root'' 8 ''node-b'' 5"
  let ?bs = "[CHR 0x0A, CHR 0x06, CHR ''n'', CHR ''o'', CHR ''d'', CHR ''e'', CHR ''-'', CHR ''a'',
              CHR 0x10, CHR 0x07]"
  let ?good = "\<lparr>Key = ''/root/members/leader'', CreateRevision = 4, ModRevision = 9, Version = 1,
                Value = ?bs, Lease = 11\<rparr>"
  let ?bad = "\<lparr>Key = ''/root/members/leader'', CreateRevision = 4, ModRevision = 9, Version = 1,
               Value = [CHR 0xFF], Lease = 11\<rparr>"
  have ok: "schema_ok memberSchema" by (simp add: schema_ok_def memberSchema_def)
  have len: "length (Name ?m) < 2 ^ 63" by (simp add: NewMember_def)
  have mar: "Marshal (proto_Marshal memberSchema) ?m = Inr ?bs" by code_simp
  have nm: "Name ?m = ''node-a''" and id: "ID ?m = 7" by (simp_all add: NewMember_def)
  note w = Marshal_GetLeader_round_trip [OF ok len]
  note w1 = w [THEN conjunct1, rule_format, OF mar]
  have un: "proto_Unmarshal memberSchema ?bs = Inr \<lparr>pb_Name = ''node-a'', pb_Id = 7\<rparr>"
    using w1 [THEN conjunct1] by (simp add: nm id)
  have get: "GetLeader (proto_Unmarshal memberSchema) (\<lambda>k. Inr \<lparr>Kvs = [?good]\<rparr>) ?r
       = Inr \<lparr>Leader = Some \<lparr>pb_Name = ''node-a'', pb_Id = 7\<rparr>, Revision = 9\<rparr>"
    using w1 [THEN conjunct2, rule_format, of "\<lambda>k. Inr \<lparr>Kvs = [?good]\<rparr>" ?r ?good]
    by (simp add: nm id)
  from w [THEN conjunct2, THEN conjunct2, THEN conjunct1, rule_format,
      of "\<lambda>k. Inr \<lparr>Kvs = [?bad]\<rparr>" ?r ?bad]
  have bad: "GetLeader (proto_Unmarshal memberSchema) (\<lambda>k. Inr \<lparr>Kvs = [?bad]\<rparr>) ?r
       = Inl (CodeError ErrInvalidLeaderValue (Some errDecode))"
    by (simp add: WithCause_def)
  from mar un get bad show ?thesis by blast
qed

text \<open>
  C9 as stated fails at the identity with id 7 and the one-byte name \<^verbatim>\<open>0xFF\<close>: the name
  is not valid UTF-8, \<^verbatim>\<open>Marshal\<close> fails and there are no bytes to deserialize.
\<close>

theorem Marshal_invalid_name_counterexample:
  "Marshal (proto_Marshal memberSchema) (NewMember ''/root'' 7 [CHR 0xFF] 5)
     = Inl (CodeError ErrMarshalMember (Some errInvalidUTF8))
 \<and> length (Name (NewMember ''/root'' 7 [CHR 0xFF] 5)) < 2 ^ 63
 \<and> schema_ok memberSchema"
  by (simp add: Marshal_def proto_Marshal_def Let_def NewMember_def utf8Valid_def inBytes_def
        WithCause_def schema_ok_def memberSchema_def)

end
